theory Spec2Isabelle
  imports Main "HOL-Library.Monad_Syntax"
begin

section \<open>Import dependency resolver (pkg/landscaper/installations/imports/helper.go)\<close>

subsection \<open>Data model\<close>

text \<open>Go errors. \<open>Wrapf\<close> is \<^verbatim>\<open>fmt.Errorf("...: %w", err)\<close>.\<close>

datatype err = Err string | Wrapf string err

text \<open>
  Modelled from the spec: the phase constants of the API package are not part of the
  sources at hand; the enumeration is the one of the data model
  (\<^verbatim>\<open>Init, Progressing, Completed, Failed, DeleteFailed\<close>).
\<close>

datatype phase = Init | Progressing | Completed | Failed | DeleteFailed

record ObjectReference =
  refName :: string
  refNamespace :: string

record OwnerReference =
  ownerKind :: string
  ownerName :: string

record DataImport =
  importName :: string
  importDataRef :: string

record ImportStatus =
  statusName :: string
  statusSourceRef :: "ObjectReference option"

text \<open>
  The fields of an installation that the resolver reads: its identity, the declared data
  imports (\<^verbatim>\<open>Spec.Imports.Data\<close>), the phase and the recorded import states.
  An \<^verbatim>\<open>InstallationBase\<close> only wraps the installation (\<^verbatim>\<open>Info\<close>), so a nilable
  \<^verbatim>\<open>*InstallationBase\<close> is an \<open>installation option\<close>.
\<close>

record installation =
  instName :: string
  instNamespace :: string
  instImportsData :: "DataImport list"
  instStatusPhase :: phase
  instStatusImports :: "ImportStatus list"

text \<open>
  The store and the helpers of package \<^verbatim>\<open>installations\<close> that reach into it are external
  to the resolver and are taken as parameters: \<open>Get\<close> is \<^verbatim>\<open>kubeClient.Get\<close> of an
  installation by namespaced name, \<open>GetParent\<close> is \<^verbatim>\<open>installations.GetParent\<close>,
  \<open>GetDataImport\<close> is the owner that \<^verbatim>\<open>installations.GetDataImport\<close> returns, and
  \<open>GetInstallationContextName\<close> the function of that name. Each of the first three either
  fails with an error or delivers its value.
\<close>

record client =
  Get :: "ObjectReference \<Rightarrow> err + installation"
  GetParent :: "installation \<Rightarrow> err + installation option"
  GetDataImport :: "string \<Rightarrow> installation \<Rightarrow> DataImport \<Rightarrow> err + OwnerReference option"
  GetInstallationContextName :: "installation \<Rightarrow> string"

text \<open>A Go result \<^verbatim>\<open>(bool, error)\<close>; \<open>None\<close> is the nil error.\<close>

type_synonym result = "bool \<times> err option"

subsection \<open>Helpers\<close>

text \<open>
  Modelled from the spec: \<^verbatim>\<open>lsv1alpha1helper.ReferenceIsObject\<close> is missing from the
  sources; "the source is the installation itself or its direct parent" is read as
  the reference naming the object: same name, same namespace.
\<close>

definition ReferenceIsObject :: "ObjectReference \<Rightarrow> installation \<Rightarrow> bool" where
  "ReferenceIsObject ref obj \<longleftrightarrow> refName ref = instName obj \<and> refNamespace ref = instNamespace obj"

text \<open>
  Modelled from the spec: \<^verbatim>\<open>lsv1alpha1helper.IsCompletedInstallationPhase\<close> is missing
  from the sources; the spec has it classify \<^verbatim>\<open>Completed\<close>, and only \<^verbatim>\<open>Completed\<close>, as
  a satisfied dependency.
\<close>

definition IsCompletedInstallationPhase :: "phase \<Rightarrow> bool" where
  "IsCompletedInstallationPhase p \<longleftrightarrow> p = Completed"

text \<open>
  Modelled from the spec: \<^verbatim>\<open>inst.ImportStatus().GetData(name)\<close> is missing from the
  sources; it is the lookup of the import state recorded under the import's name, failing
  when none is recorded.
\<close>

definition ImportStatus_GetData :: "installation \<Rightarrow> string \<Rightarrow> err + ImportStatus" where
  "ImportStatus_GetData inst n =
     (case find (\<lambda>s. statusName s = n) (instStatusImports inst) of
        None \<Rightarrow> Inl (Err ''import state not found'')
      | Some s \<Rightarrow> Inr s)"

text \<open>\<^verbatim>\<open>getImportSource\<close>, helper.go lines 105-126.\<close>

definition getImportSource ::
  "client \<Rightarrow> string \<Rightarrow> installation \<Rightarrow> DataImport \<Rightarrow> err + ObjectReference option" where
  "getImportSource c contextName inst dataImport =
     (case (case ImportStatus_GetData inst (importName dataImport) of
              Inl e \<Rightarrow> None
            | Inr status \<Rightarrow> statusSourceRef status) of
        Some sourceRef \<Rightarrow> Inr (Some sourceRef)
      | None \<Rightarrow>
          (case GetDataImport c contextName inst dataImport of
             Inl e \<Rightarrow> Inl e
           | Inr owner \<Rightarrow>
               if owner = None \<or> ownerKind (the owner) \<noteq> ''Installation'' then Inr None
               else Inr (Some \<lparr>refName = ownerName (the owner),
                                refNamespace = instNamespace inst\<rparr>)))"

subsection \<open>The sibling walk\<close>

text \<open>
  The body of \<^verbatim>\<open>CheckCompletedSiblingDependents\<close> for a non-nil installation, helper.go
  lines 57-101: the \<^verbatim>\<open>for\<close> loop over the data imports still to be looked at. The
  recursive call of line 92 on the fetched sibling starts that sibling's loop. The walk
  may go on for ever, so the function is partial: \<open>None\<close> is "does not return".
  The client and the context name are the same in every call and travel as one pair.
\<close>

partial_function (option) checkDataImports ::
  "client \<times> string \<Rightarrow> installation \<Rightarrow> DataImport list \<Rightarrow> result option" where
  "checkDataImports env inst ds =
     (case ds of
        [] \<Rightarrow> Some (True, None)
      | dataImport # rest \<Rightarrow>
          (case getImportSource (fst env) (snd env) inst dataImport of
             Inl e \<Rightarrow> Some (False, Some e)
           | Inr None \<Rightarrow> checkDataImports env inst rest
           | Inr (Some sourceRef) \<Rightarrow>
               if ReferenceIsObject sourceRef inst
               then checkDataImports env inst rest
               else
                 (case GetParent (fst env) inst of
                    Inl e \<Rightarrow> Some (False, Some e)
                  | Inr parent \<Rightarrow>
                      if parent \<noteq> None \<and> ReferenceIsObject sourceRef (the parent)
                      then checkDataImports env inst rest
                      else
                        (case Get (fst env) sourceRef of
                           Inl e \<Rightarrow> Some (False, Some e)
                         | Inr sibling \<Rightarrow>
                             if \<not> IsCompletedInstallationPhase (instStatusPhase sibling)
                             then Some (False, None)
                             else do {
                               r \<leftarrow> checkDataImports env sibling (instImportsData sibling);
                               if snd r \<noteq> None then Some (False, snd r)
                               else if \<not> fst r then Some (False, None)
                               else checkDataImports env inst rest
                             }))))"

text \<open>\<^verbatim>\<open>CheckCompletedSiblingDependents\<close>, helper.go lines 46-102.\<close>

definition CheckCompletedSiblingDependents ::
  "client \<Rightarrow> string \<Rightarrow> installation option \<Rightarrow> result option" where
  "CheckCompletedSiblingDependents c contextName inst =
     (case inst of
        None \<Rightarrow> Some (True, None)
      | Some i \<Rightarrow> checkDataImports (c, contextName) i (instImportsData i))"

text \<open>\<^verbatim>\<open>CheckCompletedSiblingDependentsOfParent\<close>, helper.go lines 20-43.\<close>

partial_function (option) CheckCompletedSiblingDependentsOfParent ::
  "client \<Rightarrow> installation option \<Rightarrow> result option" where
  "CheckCompletedSiblingDependentsOfParent c parent =
     (case parent of
        None \<Rightarrow> Some (True, None)
      | Some p \<Rightarrow> do {
          r \<leftarrow> CheckCompletedSiblingDependents c (GetInstallationContextName c p) (Some p);
          if snd r \<noteq> None then Some (False, snd r)
          else if \<not> fst r then Some (fst r, None)
          else
            (case GetParent c p of
               Inl e \<Rightarrow> Some (False, Some (Wrapf ''unable to get parent of parent'' e))
             | Inr None \<Rightarrow> Some (True, None)
             | Inr (Some parentsParentInst) \<Rightarrow>
                 CheckCompletedSiblingDependentsOfParent c (Some parentsParentInst))
        })"

subsection \<open>Notions the properties are stated in\<close>

text \<open>
  What lines 58-83 of \<^verbatim>\<open>CheckCompletedSiblingDependents\<close> decide for one data import,
  before any phase is looked at: the walk aborts with a lookup error, the import is
  skipped (no installation owns it, or its source is the installation itself or its
  direct parent), or its source is another installation, fetched from the store: a sibling.
\<close>

datatype step = Abort err | Skip | Sibling installation

definition importStep :: "client \<Rightarrow> string \<Rightarrow> installation \<Rightarrow> DataImport \<Rightarrow> step" where
  "importStep c contextName inst dataImport =
     (case getImportSource c contextName inst dataImport of
        Inl e \<Rightarrow> Abort e
      | Inr None \<Rightarrow> Skip
      | Inr (Some sourceRef) \<Rightarrow>
          if ReferenceIsObject sourceRef inst then Skip
          else
            (case GetParent c inst of
               Inl e \<Rightarrow> Abort e
             | Inr parent \<Rightarrow>
                 if parent \<noteq> None \<and> ReferenceIsObject sourceRef (the parent) then Skip
                 else (case Get c sourceRef of Inl e \<Rightarrow> Abort e | Inr sibling \<Rightarrow> Sibling sibling)))"

text \<open>
  The siblings an installation depends on, in the order of its data imports, and the
  relation "imports data from the sibling".
\<close>

definition siblingDependencies :: "client \<Rightarrow> string \<Rightarrow> installation \<Rightarrow> installation list" where
  "siblingDependencies c contextName inst =
     concat (map (\<lambda>d. case importStep c contextName inst d of Sibling s \<Rightarrow> [s] | _ \<Rightarrow> [])
       (instImportsData inst))"

definition dependsOn :: "client \<Rightarrow> string \<Rightarrow> (installation \<times> installation) set" where
  "dependsOn c contextName = {(i, s). s \<in> set (siblingDependencies c contextName i)}"



text \<open>
  The sibling dependents of an installation are satisfied: the check run for it, under
  its own context name, returns \<^verbatim>\<open>(true, nil)\<close>.
\<close>

definition siblingsSatisfied :: "client \<Rightarrow> installation \<Rightarrow> bool" where
  "siblingsSatisfied c a \<longleftrightarrow>
     CheckCompletedSiblingDependents c (GetInstallationContextName c a) (Some a) = Some (True, None)"

text \<open>
  The data imports \<open>ds\<close> of an installation are satisfied: each is skipped, or its
  source is a completed sibling all of whose data imports are satisfied in turn. This
  says what the walk is to find, with no reference to the walk itself.
\<close>

inductive importsSatisfied :: "client \<Rightarrow> string \<Rightarrow> installation \<Rightarrow> DataImport list \<Rightarrow> bool"
  for c :: client and contextName :: string where
  no_imports: "importsSatisfied c contextName inst []"
| skipped: "importStep c contextName inst d = Skip \<Longrightarrow> importsSatisfied c contextName inst ds \<Longrightarrow>
            importsSatisfied c contextName inst (d # ds)"
| completed: "importStep c contextName inst d = Sibling s \<Longrightarrow>
              IsCompletedInstallationPhase (instStatusPhase s) \<Longrightarrow>
              importsSatisfied c contextName s (instImportsData s) \<Longrightarrow>
              importsSatisfied c contextName inst ds \<Longrightarrow>
              importsSatisfied c contextName inst (d # ds)"

code_pred importsSatisfied .

subsection \<open>Stores to run the resolver on\<close>

text \<open>
  A store given by the list of its installations and the name of each one's parent. The
  data reference of an import names the installation that exports it; an empty reference
  is data without an owner.
\<close>

definition mkInst :: "string \<Rightarrow> string list \<Rightarrow> phase \<Rightarrow> installation" where
  "mkInst n imps p =
     \<lparr>instName = n, instNamespace = ''test'',
      instImportsData = map (\<lambda>s. \<lparr>importName = s, importDataRef = s\<rparr>) imps,
      instStatusPhase = p, instStatusImports = []\<rparr>"

definition storeClient :: "installation list \<Rightarrow> (string \<Rightarrow> string option) \<Rightarrow> client" where
  "storeClient insts parentOf =
     \<lparr>Get = (\<lambda>ref. case find (ReferenceIsObject ref) insts of
                      None \<Rightarrow> Inl (Err ''not found'')
                    | Some i \<Rightarrow> Inr i),
      GetParent = (\<lambda>i. case parentOf (instName i) of
                      None \<Rightarrow> Inr None
                    | Some p \<Rightarrow>
                        (case find (\<lambda>j. instName j = p \<and> instNamespace j = instNamespace i) insts of
                           None \<Rightarrow> Inl (Err ''not found'')
                         | Some j \<Rightarrow> Inr (Some j))),
      GetDataImport = (\<lambda>contextName i d.
                      if importDataRef d = [] then Inr None
                      else Inr (Some \<lparr>ownerKind = ''Installation'', ownerName = importDataRef d\<rparr>)),
      GetInstallationContextName = (\<lambda>i. case parentOf (instName i) of
                      None \<Rightarrow> ''root''
                    | Some p \<Rightarrow> p)\<rparr>"

text \<open>
  Installation \<open>a\<close> is not in the store; the store holds the completed \<open>c\<close> and the
  progressing \<open>x\<close>, and nothing named \<open>zz\<close>. Every installation but \<open>root\<close> has
  \<open>root\<close> as its parent.
\<close>

definition store4 :: "installation list" where
  "store4 = [mkInst ''root'' [] Progressing, mkInst ''c'' [] Completed, mkInst ''x'' [] Progressing]"

definition parent1 :: "string \<Rightarrow> string option" where
  "parent1 n = (if n = ''root'' then None else Some ''root'')"

text \<open>
  A chain of imports: \<open>a\<close> imports from \<open>b\<close>, \<open>b\<close> from \<open>c\<close>; both are completed. The
  two ranks decrease along the imports of completed siblings and along the parent links.
\<close>

definition store2 :: "installation list" where
  "store2 = [mkInst ''root'' [] Progressing, mkInst ''a'' [''b''] Init,
             mkInst ''b'' [''c''] Completed, mkInst ''c'' [] Completed]"

definition rank2 :: "installation \<Rightarrow> nat" where
  "rank2 i = (if i = mkInst ''c'' [] Completed then 0 else if i = mkInst ''b'' [''c''] Completed then 1 else 2)"

definition prank1 :: "installation \<Rightarrow> nat" where
  "prank1 i = (if instName i = ''root'' then 0 else 1)"



text \<open>
  Malformed stores: two completed installations that import from each other, and two
  installations that are each other's parent.
\<close>

definition storeCyc :: "installation list" where
  "storeCyc = [mkInst ''a'' [''b''] Completed, mkInst ''b'' [''a''] Completed]"

definition noParent :: "string \<Rightarrow> string option" where
  "noParent n = None"

definition storeLoop :: "installation list" where
  "storeLoop = [mkInst ''p'' [] Completed, mkInst ''q'' [] Completed]"

definition parentLoop :: "string \<Rightarrow> string option" where
  "parentLoop n = (if n = ''p'' then Some ''q'' else if n = ''q'' then Some ''p'' else None)"

section \<open>Execution controller (src/unnamed/part_000)\<close>

subsection \<open>Data model\<close>

text \<open>
  An error of the store or of a collaborator, a Go \<^verbatim>\<open>error\<close>: what \<^verbatim>\<open>apierrors.IsConflict\<close>
  answers for it and its \<^verbatim>\<open>Error()\<close> string.
\<close>

datatype apierror = ApiError (isConflict: bool) (errorString: string)

text \<open>
  An \<^verbatim>\<open>lserrors.LsError\<close>, built by \<^verbatim>\<open>lserrors.NewError(operation, reason, message)\<close> or by
  \<^verbatim>\<open>lserrors.NewWrappedError(err, operation, reason, message)\<close>.
\<close>

record LsError =
  lsOperation :: string
  lsReason :: string
  lsMessage :: string
  lsWrapped :: "apierror option"

definition NewError :: "string \<Rightarrow> string \<Rightarrow> string \<Rightarrow> LsError" where
  "NewError operation reason message =
     \<lparr>lsOperation = operation, lsReason = reason, lsMessage = message, lsWrapped = None\<rparr>"

definition NewWrappedError :: "apierror \<Rightarrow> string \<Rightarrow> string \<Rightarrow> string \<Rightarrow> LsError" where
  "NewWrappedError e operation reason message =
     \<lparr>lsOperation = operation, lsReason = reason, lsMessage = message, lsWrapped = Some e\<rparr>"

text \<open>
  Modelled from the spec: the type \<^verbatim>\<open>lsv1alpha1.Error\<close> of \<^verbatim>\<open>Status.LastError\<close> is not part
  of the sources. The spec lists \<^verbatim>\<open>Reason, Message, Codes, LastUpdateTime\<close>; the operation
  is what the constructors above are given, and the time the error was first recorded is
  what "persisted" is measured from (\<^verbatim>\<open>GetPhaseForLastError\<close> is handed the error and
  the threshold, no clock). Times are in seconds.
\<close>

record Error =
  errOperation :: string
  errReason :: string
  errMessage :: string
  errCodes :: "string list"
  errLastTransitionTime :: int
  errLastUpdateTime :: int

record ExecutionStatus =
  ObservedGeneration :: int
  Phase :: phase
  LastError :: "Error option"

text \<open>
  The fields of an execution that the controller reads and writes. A zero
  \<^verbatim>\<open>DeletionTimestamp\<close> is \<open>None\<close>.
\<close>

record Execution =
  Generation :: int
  Annotations :: "string \<rightharpoonup> string"
  Finalizers :: "string list"
  DeletionTimestamp :: "int option"
  Status :: ExecutionStatus

text \<open>
  What one invocation does to the world outside, in order: the writes it issues (with the
  write id and the object as written), the events it records, and its calls of the
  execution-layer operation (with the \<^verbatim>\<open>forceReconcile\<close> flag the operation was created
  with and the execution as handed over). Log lines are left out.
\<close>

datatype effect =
    UpdateExecutionStatus string Execution
  | UpdateExecution string Execution
  | PatchExecution string Execution Execution
  | Event Execution string string string
  | OpDelete bool Execution
  | OpHandleDeployItemPhaseAndGenerationChanges bool Execution
  | OpReconcile bool Execution

datatype getResult = NotFound | GetFailed apierror | Found Execution

text \<open>
  The collaborators, taken as parameters: the outcome of each write of the
  \<^verbatim>\<open>read_write_layer\<close> writer (\<open>None\<close> is success), the three methods of the execution
  operation, each of which may change the execution it holds, the read of the execution
  and the clock. A write changes none of the fields modelled here.
\<close>

record env =
  writerUpdateExecutionStatus :: "string \<Rightarrow> Execution \<Rightarrow> apierror option"
  writerUpdateExecution :: "string \<Rightarrow> Execution \<Rightarrow> apierror option"
  writerPatchExecution :: "string \<Rightarrow> Execution \<Rightarrow> Execution \<Rightarrow> apierror option"
  opDelete :: "bool \<Rightarrow> Execution \<Rightarrow> LsError option \<times> Execution"
  opHandleDeployItemPhaseAndGenerationChanges :: "bool \<Rightarrow> Execution \<Rightarrow> apierror option \<times> Execution"
  opReconcile :: "bool \<Rightarrow> Execution \<Rightarrow> LsError option \<times> Execution"
  GetExecution :: "ObjectReference \<Rightarrow> getResult"
  now :: int

text \<open>
  What a function of the controller leaves behind: the error it returns, the execution
  as it stands in memory afterwards, and the effects in order.
\<close>

record 'e outcome =
  returned :: "'e option"
  execAfter :: Execution
  effects :: "effect list"

text \<open>The \<^verbatim>\<open>error\<close> that \<^verbatim>\<open>handleError\<close> returns: the invocation's error or a write error.\<close>

datatype goerror = OfLsError LsError | OfApiError apierror

subsection \<open>Constants and helpers of the API package\<close>

text \<open>
  Modelled from the spec: the annotation keys, the operation values and the finalizer
  name are constants of the API package, not part of the sources. The operation
  annotation is one key (the source deletes \<^verbatim>\<open>lsv1alpha1.OperationAnnotation\<close> for both
  operations) whose value names the operation requested.
\<close>

definition OperationAnnotation :: string where
  "OperationAnnotation = ''landscaper.gardener.cloud/operation''"

definition ReconcileOperation :: string where
  "ReconcileOperation = ''reconcile''"

definition ForceReconcileOperation :: string where
  "ForceReconcileOperation = ''force-reconcile''"

definition IgnoreAnnotation :: string where
  "IgnoreAnnotation = ''landscaper.gardener.cloud/ignore''"

definition LandscaperFinalizer :: string where
  "LandscaperFinalizer = ''finalizer.landscaper.gardener.cloud''"

text \<open>
  Modelled from the spec: \<^verbatim>\<open>lsv1alpha1helper.HasOperation\<close> and
  \<^verbatim>\<open>lsv1alpha1helper.HasIgnoreAnnotation\<close> are missing from the sources; they read the
  annotations above.
\<close>

definition HasOperation :: "Execution \<Rightarrow> string \<Rightarrow> bool" where
  "HasOperation exec operation \<longleftrightarrow> Annotations exec OperationAnnotation = Some operation"

definition HasIgnoreAnnotation :: "Execution \<Rightarrow> bool" where
  "HasIgnoreAnnotation exec \<longleftrightarrow> Annotations exec IgnoreAnnotation = Some ''true''"

text \<open>
  Modelled from the spec: \<^verbatim>\<open>lsv1alpha1helper.IsCompletedExecutionPhase\<close> is missing from
  the sources; the spec has it classify \<^verbatim>\<open>Completed\<close>, and only \<^verbatim>\<open>Completed\<close>.
\<close>

definition IsCompletedExecutionPhase :: "phase \<Rightarrow> bool" where
  "IsCompletedExecutionPhase p \<longleftrightarrow> p = Completed"

text \<open>
  \<^verbatim>\<open>kubernetes.HasFinalizer\<close> and \<^verbatim>\<open>controllerutil.AddFinalizer\<close>: membership in the list of
  finalizers, and appending a finalizer that is not there yet.
\<close>

definition HasFinalizer :: "Execution \<Rightarrow> string \<Rightarrow> bool" where
  "HasFinalizer exec finalizer \<longleftrightarrow> finalizer \<in> set (Finalizers exec)"

definition AddFinalizer :: "Execution \<Rightarrow> string \<Rightarrow> Execution" where
  "AddFinalizer exec finalizer =
     (if finalizer \<in> set (Finalizers exec) then exec
      else exec\<lparr>Finalizers := Finalizers exec @ [finalizer]\<rparr>)"

text \<open>
  Modelled from the spec: \<^verbatim>\<open>lserrors.TryUpdateLsError\<close> is missing from the sources. The
  error of this invocation is merged into the recorded one: it replaces it, last updated
  now, and keeps the time the recorded error was first seen when it is the same error
  (same operation and reason) observed again.
\<close>

definition TryUpdateLsError :: "int \<Rightarrow> Error option \<Rightarrow> LsError \<Rightarrow> Error" where
  "TryUpdateLsError t lastErr err =
     \<lparr>errOperation = lsOperation err, errReason = lsReason err, errMessage = lsMessage err,
      errCodes = [],
      errLastTransitionTime =
        (case lastErr of
           None \<Rightarrow> t
         | Some l \<Rightarrow>
             if errOperation l = lsOperation err \<and> errReason l = lsReason err
             then errLastTransitionTime l else t),
      errLastUpdateTime = t\<rparr>"

text \<open>
  Modelled from the spec: \<^verbatim>\<open>lserrors.GetPhaseForLastError\<close> is missing from the sources.
  With no error recorded the phase stands; the phase is \<^verbatim>\<open>Failed\<close> once the recorded error
  has persisted past the threshold, and stands otherwise.
\<close>

definition GetPhaseForLastError :: "phase \<Rightarrow> Error option \<Rightarrow> int \<Rightarrow> phase" where
  "GetPhaseForLastError p lastError d =
     (case lastError of
        None \<Rightarrow> p
      | Some l \<Rightarrow> if errLastUpdateTime l - errLastTransitionTime l > d then Failed else p)"

subsection \<open>The controller\<close>

text \<open>\<^verbatim>\<open>HandleAnnotationsAndGeneration\<close>, part_000 lines 137-170.\<close>

definition HandleAnnotationsAndGeneration :: "env \<Rightarrow> Execution \<Rightarrow> LsError outcome" where
  "HandleAnnotationsAndGeneration c exec =
     (let operation = ''HandleAnnotationsAndGeneration'';
          hasReconcileAnnotation = HasOperation exec ReconcileOperation;
          hasForceReconcileAnnotation = HasOperation exec ForceReconcileOperation;
          needed = (hasReconcileAnnotation \<or> hasForceReconcileAnnotation \<or>
                    ObservedGeneration (Status exec) \<noteq> Generation exec);
          exec1 = (if needed
                   then exec\<lparr>Status := (Status exec)\<lparr>ObservedGeneration := Generation exec,
                                                      Phase := Init\<rparr>\<rparr>
                   else exec);
          fx1 = (if needed then [UpdateExecutionStatus ''W000033'' exec1] else [])
      in case (if needed then writerUpdateExecutionStatus c ''W000033'' exec1 else None) of
           Some e \<Rightarrow>
             \<lparr>returned = Some (NewWrappedError e operation ''update execution status'' (errorString e)),
              execAfter = exec1, effects = fx1\<rparr>
         | None \<Rightarrow>
             if hasReconcileAnnotation then
               (let exec2 = exec1\<lparr>Annotations := (Annotations exec1)(OperationAnnotation := None)\<rparr>;
                    fx2 = fx1 @ [UpdateExecution ''W000027'' exec2]
                in case writerUpdateExecution c ''W000027'' exec2 of
                     Some e \<Rightarrow>
                       \<lparr>returned = Some (NewWrappedError e operation ''update execution'' (errorString e)),
                        execAfter = exec2, effects = fx2\<rparr>
                   | None \<Rightarrow> \<lparr>returned = None, execAfter = exec2, effects = fx2\<rparr>)
             else \<lparr>returned = None, execAfter = exec1, effects = fx1\<rparr>)"

text \<open>
  The rest of \<^verbatim>\<open>Ensure\<close> once annotations, generation and finalizer are dealt with,
  part_000 lines 96-114.
\<close>

definition EnsureOperation :: "env \<Rightarrow> Execution \<Rightarrow> effect list \<Rightarrow> LsError outcome" where
  "EnsureOperation c exec fx =
     (let forceReconcile = HasOperation exec ForceReconcileOperation in
      if DeletionTimestamp exec \<noteq> None then
        (case opDelete c forceReconcile exec of
           (r, exec') \<Rightarrow> \<lparr>returned = r, execAfter = exec', effects = fx @ [OpDelete forceReconcile exec]\<rparr>)
      else if IsCompletedExecutionPhase (Phase (Status exec)) then
        (case opHandleDeployItemPhaseAndGenerationChanges c forceReconcile exec of
           (Some err, exec') \<Rightarrow>
             \<lparr>returned = Some (NewWrappedError err ''Reconcile''
                                 ''HandleDeployItemPhaseAndGenerationChanges'' (errorString err)),
              execAfter = exec',
              effects = fx @ [OpHandleDeployItemPhaseAndGenerationChanges forceReconcile exec]\<rparr>
         | (None, exec') \<Rightarrow>
             if IsCompletedExecutionPhase (Phase (Status exec')) then
               \<lparr>returned = None, execAfter = exec',
                effects = fx @ [OpHandleDeployItemPhaseAndGenerationChanges forceReconcile exec]\<rparr>
             else
               (case opReconcile c forceReconcile exec' of
                  (r, exec'') \<Rightarrow>
                    \<lparr>returned = r, execAfter = exec'',
                     effects = fx @ [OpHandleDeployItemPhaseAndGenerationChanges forceReconcile exec,
                                     OpReconcile forceReconcile exec']\<rparr>))
      else
        (case opReconcile c forceReconcile exec of
           (r, exec') \<Rightarrow>
             \<lparr>returned = r, execAfter = exec', effects = fx @ [OpReconcile forceReconcile exec]\<rparr>))"

text \<open>\<^verbatim>\<open>controller.Ensure\<close>, part_000 lines 84-115.\<close>

definition Ensure :: "env \<Rightarrow> Execution \<Rightarrow> LsError outcome" where
  "Ensure c exec =
     (let h = HandleAnnotationsAndGeneration c exec in
      case returned h of
        Some err \<Rightarrow> h
      | None \<Rightarrow>
          (let exec1 = execAfter h in
           if DeletionTimestamp exec1 = None \<and> \<not> HasFinalizer exec1 LandscaperFinalizer then
             (let exec2 = AddFinalizer exec1 LandscaperFinalizer;
                  fx = effects h @ [UpdateExecution ''W000025'' exec2]
              in case writerUpdateExecution c ''W000025'' exec2 of
                   Some err \<Rightarrow>
                     \<lparr>returned = Some (NewError ''Reconcile'' ''AddFinalizer'' (errorString err)),
                      execAfter = exec2, effects = fx\<rparr>
                 | None \<Rightarrow> EnsureOperation c exec2 fx)
           else EnsureOperation c exec1 (effects h)))"

text \<open>\<^verbatim>\<open>controller.removeForceReconcileAnnotation\<close>, part_000 lines 117-128.\<close>

definition removeForceReconcileAnnotation :: "env \<Rightarrow> Execution \<Rightarrow> LsError outcome" where
  "removeForceReconcileAnnotation c exec =
     (if HasOperation exec ForceReconcileOperation then
        (let old = exec;
             exec1 = exec\<lparr>Annotations := (Annotations exec)(OperationAnnotation := None)\<rparr>
         in case writerPatchExecution c ''W000029'' exec1 old of
              Some err \<Rightarrow>
                \<lparr>returned = Some (NewWrappedError err ''Reconcile'' ''RemoveForceReconcileAnnotation''
                                    (errorString err)),
                 execAfter = exec1,
                 effects = [PatchExecution ''W000029'' exec1 old,
                            Event exec1 ''Warning'' ''RemoveForceReconcileAnnotation'' (errorString err)]\<rparr>
            | None \<Rightarrow>
                \<lparr>returned = None, execAfter = exec1, effects = [PatchExecution ''W000029'' exec1 old]\<rparr>)
      else \<lparr>returned = None, execAfter = exec, effects = []\<rparr>)"

text \<open>\<^verbatim>\<open>handleError\<close>, part_000 lines 172-211. The threshold \<^verbatim>\<open>5*time.Minute\<close> is 300 seconds.\<close>

definition handleError ::
  "env \<Rightarrow> LsError option \<Rightarrow> Execution \<Rightarrow> Execution \<Rightarrow> bool \<Rightarrow> goerror outcome" where
  "handleError c err oldExec exec isDelete =
     (if isDelete \<and> err = None then \<lparr>returned = None, execAfter = exec, effects = []\<rparr>
      else
        (let exec1 = (case err of
                        None \<Rightarrow> exec
                      | Some e \<Rightarrow>
                          exec\<lparr>Status := (Status exec)\<lparr>LastError :=
                            Some (TryUpdateLsError (now c) (LastError (Status exec)) e)\<rparr>\<rparr>);
             exec2 = exec1\<lparr>Status := (Status exec1)\<lparr>Phase :=
                       GetPhaseForLastError (Phase (Status exec1)) (LastError (Status exec1)) (5 * 60)\<rparr>\<rparr>;
             fx = (case LastError (Status exec2) of
                     None \<Rightarrow> []
                   | Some lastErr \<Rightarrow> [Event exec2 ''Warning'' (errReason lastErr) (errMessage lastErr)])
         in if Status oldExec \<noteq> Status exec2 then
              (case writerUpdateExecutionStatus c ''W000031'' exec2 of
                 Some updateErr \<Rightarrow>
                   \<lparr>returned = Some (OfApiError updateErr), execAfter = exec2,
                    effects = fx @ [UpdateExecutionStatus ''W000031'' exec2]\<rparr>
               | None \<Rightarrow>
                   \<lparr>returned = map_option OfLsError err, execAfter = exec2,
                    effects = fx @ [UpdateExecutionStatus ''W000031'' exec2]\<rparr>)
            else \<lparr>returned = map_option OfLsError err, execAfter = exec2, effects = fx\<rparr>))"

text \<open>
  \<^verbatim>\<open>controller.Reconcile\<close>, part_000 lines 51-82. An invocation that ends before the
  execution is read has no execution to show afterwards.
\<close>

record invocation =
  result :: "goerror option"
  execution :: "Execution option"
  trace :: "effect list"

definition Reconcile :: "env \<Rightarrow> ObjectReference \<Rightarrow> invocation" where
  "Reconcile c req =
     (case GetExecution c req of
        NotFound \<Rightarrow> \<lparr>result = None, execution = None, trace = []\<rparr>
      | GetFailed err \<Rightarrow> \<lparr>result = Some (OfApiError err), execution = None, trace = []\<rparr>
      | Found exec \<Rightarrow>
          if HasIgnoreAnnotation exec \<and> IsCompletedExecutionPhase (Phase (Status exec))
          then \<lparr>result = None, execution = Some exec, trace = []\<rparr>
          else
            (let oldExec = exec;
                 e = Ensure c exec;
                 r = removeForceReconcileAnnotation c (execAfter e);
                 lsError = (if returned e = None then returned r else returned e);
                 isDelete = (DeletionTimestamp (execAfter r) \<noteq> None);
                 h = handleError c lsError oldExec (execAfter r) isDelete
             in \<lparr>result = returned h, execution = Some (execAfter h),
                 trace = effects e @ effects r @ effects h\<rparr>))"

subsection \<open>Notions the properties are stated in\<close>

text \<open>
  The calls of the execution-layer operation among the effects: the execution handed over
  and the \<^verbatim>\<open>forceReconcile\<close> flag. Writes and events.
\<close>

fun opCallExec :: "effect \<Rightarrow> Execution option" where
  "opCallExec (OpDelete f e) = Some e"
| "opCallExec (OpHandleDeployItemPhaseAndGenerationChanges f e) = Some e"
| "opCallExec (OpReconcile f e) = Some e"
| "opCallExec _ = None"

fun opCallForce :: "effect \<Rightarrow> bool option" where
  "opCallForce (OpDelete f e) = Some f"
| "opCallForce (OpHandleDeployItemPhaseAndGenerationChanges f e) = Some f"
| "opCallForce (OpReconcile f e) = Some f"
| "opCallForce _ = None"

definition isOpCall :: "effect \<Rightarrow> bool" where
  "isOpCall fx \<longleftrightarrow> opCallExec fx \<noteq> None"

fun isWrite :: "effect \<Rightarrow> bool" where
  "isWrite (UpdateExecutionStatus w e) = True"
| "isWrite (UpdateExecution w e) = True"
| "isWrite (PatchExecution w e old) = True"
| "isWrite _ = False"


text \<open>
  A reconcile is required (part_000 line 141), and the execution with the status that
  lines 148-149 give it.
\<close>

definition reconcileRequired :: "Execution \<Rightarrow> bool" where
  "reconcileRequired exec \<longleftrightarrow>
     HasOperation exec ReconcileOperation \<or> HasOperation exec ForceReconcileOperation \<or>
     ObservedGeneration (Status exec) \<noteq> Generation exec"

definition normalized :: "Execution \<Rightarrow> Execution" where
  "normalized exec = exec\<lparr>Status := (Status exec)\<lparr>ObservedGeneration := Generation exec, Phase := Init\<rparr>\<rparr>"

text \<open>
  The execution after lines 183-192 of \<^verbatim>\<open>handleError\<close>: the error merged into
  \<^verbatim>\<open>Status.LastError\<close>, then the phase set by \<^verbatim>\<open>GetPhaseForLastError\<close>.
\<close>

definition statusAfterError :: "env \<Rightarrow> LsError option \<Rightarrow> Execution \<Rightarrow> Execution" where
  "statusAfterError c err exec =
     (let exec1 = (case err of
                     None \<Rightarrow> exec
                   | Some e \<Rightarrow>
                       exec\<lparr>Status := (Status exec)\<lparr>LastError :=
                         Some (TryUpdateLsError (now c) (LastError (Status exec)) e)\<rparr>\<rparr>)
      in exec1\<lparr>Status := (Status exec1)\<lparr>Phase :=
           GetPhaseForLastError (Phase (Status exec1)) (LastError (Status exec1)) (5 * 60)\<rparr>\<rparr>)"

text \<open>
  How long a recorded error has persisted: from the time it was first recorded to its
  last update.
\<close>

definition persisted :: "Error \<Rightarrow> int" where
  "persisted lastErr = errLastUpdateTime lastErr - errLastTransitionTime lastErr"


subsection \<open>Executions and collaborators to run the controller on\<close>

text \<open>
  Collaborators that never fail, on an empty store, at time 1000; the main reconcile
  completes the execution. Variants: the status write runs into a conflict; the store
  holds a completed execution, with and without a recorded error.
\<close>

definition quietEnv :: env where
  "quietEnv =
     \<lparr>writerUpdateExecutionStatus = (\<lambda>w e. None),
      writerUpdateExecution = (\<lambda>w e. None),
      writerPatchExecution = (\<lambda>w e old. None),
      opDelete = (\<lambda>f e. (None, e)),
      opHandleDeployItemPhaseAndGenerationChanges = (\<lambda>f e. (None, e)),
      opReconcile = (\<lambda>f e. (None, e\<lparr>Status := (Status e)\<lparr>Phase := Completed\<rparr>\<rparr>)),
      GetExecution = (\<lambda>req. NotFound),
      now = 1000\<rparr>"

definition conflictEnv :: env where
  "conflictEnv = quietEnv\<lparr>writerUpdateExecutionStatus := (\<lambda>w e. Some (ApiError True ''conflict''))\<rparr>"

definition mkExec :: "int \<Rightarrow> int \<Rightarrow> phase \<Rightarrow> string option \<Rightarrow> Error option \<Rightarrow> Execution" where
  "mkExec g og p operation le =
     \<lparr>Generation = g,
      Annotations = (case operation of None \<Rightarrow> Map.empty | Some v \<Rightarrow> [OperationAnnotation \<mapsto> v]),
      Finalizers = [LandscaperFinalizer],
      DeletionTimestamp = None,
      Status = \<lparr>ObservedGeneration = og, Phase = p, LastError = le\<rparr>\<rparr>"

definition recordedError :: "int \<Rightarrow> Error" where
  "recordedError t =
     \<lparr>errOperation = ''Reconcile'', errReason = ''Apply'', errMessage = ''boom'', errCodes = [],
      errLastTransitionTime = t, errLastUpdateTime = t\<rparr>"



section \<open>Export constructor\<close>

text \<open>
  Modelled from the spec: the enumeration of \<^verbatim>\<open>Metadata.SourceType\<close> is not part of the
  sources; the data model of the spec has a data object produced by an execution's output
  or by another installation's export.
\<close>

datatype SourceType = ExecutionOutput | InstallationExport

record DataObject =
  doKey :: string
  doData :: string
  doSourceType :: SourceType
  doSourceRef :: "ObjectReference option"

text \<open>
  A sibling installation as the constructor sees it, with the values it exports, and what
  \<^verbatim>\<open>Construct\<close> works on: the declared export keys in their order, the output of the
  installation's own execution, and the siblings.
\<close>

record Sibling =
  siblingName :: string
  siblingNamespace :: string
  siblingPhase :: phase
  siblingExports :: "(string \<times> string) list"

record ExportContext =
  declaredExports :: "string list"
  executionOutput :: "(string \<times> string) list"
  siblings :: "Sibling list"

definition exportedBy :: "string \<Rightarrow> Sibling \<Rightarrow> bool" where
  "exportedBy k s \<longleftrightarrow>
     IsCompletedInstallationPhase (siblingPhase s) \<and> map_of (siblingExports s) k \<noteq> None"

text \<open>
  Modelled from the spec: the export constructor (\<^verbatim>\<open>exports.Constructor.Construct\<close>) is
  not part of the sources, only its tests are (exports_test, lines 254-334 of
  outdated_test.go). Keys, values and order follow section 4.2 of the spec: every
  declared export key, in the order declared, is taken from the execution's own output
  if the execution produced it, else from the first completed sibling that exports it,
  with \<^verbatim>\<open>SourceRef\<close> the sibling; a key without source is an error. The source type
  follows the tests, which expect \<^verbatim>\<open>lsv1alpha1.ExportDataObjectSourceType\<close> on every data
  object, produced by the execution (lines 265, 268, 322) or by a sibling (lines 290,
  297, 329): every object gets the one source type \<open>exportSourceType\<close>. Which value of
  the enumeration that constant is cannot be read from the sources; it is a parameter.
\<close>

fun constructExports ::
  "SourceType \<Rightarrow> (string \<times> string) list \<Rightarrow> Sibling list \<Rightarrow> string list \<Rightarrow> err + DataObject list" where
  "constructExports exportSourceType out sibs [] = Inr []"
| "constructExports exportSourceType out sibs (k # ks) =
     (case (case map_of out k of
              Some v \<Rightarrow>
                Inr \<lparr>doKey = k, doData = v, doSourceType = exportSourceType, doSourceRef = None\<rparr>
            | None \<Rightarrow>
                (case find (exportedBy k) sibs of
                   None \<Rightarrow> Inl (Err ''export without source'')
                 | Some s \<Rightarrow>
                     Inr \<lparr>doKey = k, doData = the (map_of (siblingExports s) k),
                          doSourceType = exportSourceType,
                          doSourceRef = Some \<lparr>refName = siblingName s,
                                              refNamespace = siblingNamespace s\<rparr>\<rparr>)) of
        Inl e \<Rightarrow> Inl e
      | Inr d \<Rightarrow>
          (case constructExports exportSourceType out sibs ks of
             Inl e \<Rightarrow> Inl e
           | Inr ds \<Rightarrow> Inr (d # ds)))"

definition Construct :: "SourceType \<Rightarrow> ExportContext \<Rightarrow> err + DataObject list" where
  "Construct exportSourceType inst =
     constructExports exportSourceType (executionOutput inst) (siblings inst) (declaredExports inst)"

text \<open>
  What the tests expect of a result, with \<open>exportSourceType\<close> for
  \<^verbatim>\<open>lsv1alpha1.ExportDataObjectSourceType\<close>. \<^verbatim>\<open>MatchElements(id, IgnoreExtras, Elements{...})\<close>
  with \<^verbatim>\<open>MatchFields(IgnoreExtras, ...)\<close> (lines 286-301, 318-333): the element with the
  key is there, once, with the data and the source type given.
\<close>

definition matchesElement :: "DataObject list \<Rightarrow> string \<Rightarrow> string \<Rightarrow> SourceType \<Rightarrow> bool" where
  "matchesElement res k v t \<longleftrightarrow>
     (case filter (\<lambda>d. doKey d = k) res of
        [d] \<Rightarrow> doData d = v \<and> doSourceType d = t
      | _ \<Rightarrow> False)"

text \<open>"should construct the exported config from its execution", lines 254-270.\<close>

definition expectedFromExecution :: "SourceType \<Rightarrow> err + DataObject list \<Rightarrow> bool" where
  "expectedFromExecution exportSourceType r \<longleftrightarrow>
     (case r of
        Inr [d0, d1] \<Rightarrow>
          doData d0 = ''val-exec'' \<and> doSourceType d0 = exportSourceType \<and> doKey d0 = ''root.y'' \<and>
          doData d1 = ''val-exec'' \<and> doSourceType d1 = exportSourceType \<and> doKey d1 = ''root.z''
      | _ \<Rightarrow> False)"

text \<open>"should construct the exported config from a siblings", lines 272-302.\<close>

definition expectedFromSiblings :: "SourceType \<Rightarrow> err + DataObject list \<Rightarrow> bool" where
  "expectedFromSiblings exportSourceType r \<longleftrightarrow>
     (case r of
        Inl e \<Rightarrow> False
      | Inr res \<Rightarrow>
          length res = 2 \<and>
          matchesElement res ''root.z'' ''val-b'' exportSourceType \<and>
          matchesElement res ''root.y'' ''val-c'' exportSourceType)"

text \<open>
  "should construct the exported config from a siblings and the execution config", lines
  304-334.
\<close>

definition expectedFromSiblingAndExecution :: "SourceType \<Rightarrow> err + DataObject list \<Rightarrow> bool" where
  "expectedFromSiblingAndExecution exportSourceType r \<longleftrightarrow>
     (case r of
        Inl e \<Rightarrow> False
      | Inr res \<Rightarrow>
          length res = 2 \<and>
          matchesElement res ''root.y'' ''val-exec'' exportSourceType \<and>
          matchesElement res ''root.z'' ''val-a'' exportSourceType)"

text \<open>
  The installations of the three tests, as far as their names tell (the test data is not
  part of the sources): an execution that exports both keys; siblings \<open>b\<close> and \<open>c\<close> that
  export one key each; an execution that exports \<^verbatim>\<open>root.y\<close> beside one sibling that
  exports \<^verbatim>\<open>root.z\<close>.
\<close>

definition mkSibling :: "string \<Rightarrow> string \<Rightarrow> string \<Rightarrow> Sibling" where
  "mkSibling n k v =
     \<lparr>siblingName = n, siblingNamespace = ''test'', siblingPhase = Completed,
      siblingExports = [(k, v)]\<rparr>"

definition scenarioExecution :: ExportContext where
  "scenarioExecution =
     \<lparr>declaredExports = [''root.y'', ''root.z''],
      executionOutput = [(''root.y'', ''val-exec''), (''root.z'', ''val-exec'')],
      siblings = []\<rparr>"

definition scenarioSiblings :: ExportContext where
  "scenarioSiblings =
     \<lparr>declaredExports = [''root.y'', ''root.z''],
      executionOutput = [],
      siblings = [mkSibling ''b'' ''root.z'' ''val-b'', mkSibling ''c'' ''root.y'' ''val-c'']\<rparr>"

definition scenario :: "string \<Rightarrow> string \<Rightarrow> ExportContext" where
  "scenario sib v =
     \<lparr>declaredExports = [''root.y'', ''root.z''],
      executionOutput = [(''root.y'', ''val-exec'')],
      siblings = [mkSibling sib ''root.z'' v]\<rparr>"

section \<open>Properties of the dependency resolver\<close>

subsection \<open>Unfolding the walk\<close>

lemma checkDataImports_Nil [simp]: "checkDataImports env inst [] = Some (True, None)"
  by (subst checkDataImports.simps) simp

lemma checkDataImports_Cons:
  "checkDataImports (c, contextName) inst (d # rest) =
     (case importStep c contextName inst d of
        Abort e \<Rightarrow> Some (False, Some e)
      | Skip \<Rightarrow> checkDataImports (c, contextName) inst rest
      | Sibling sibling \<Rightarrow>
          if \<not> IsCompletedInstallationPhase (instStatusPhase sibling) then Some (False, None)
          else
            (case checkDataImports (c, contextName) sibling (instImportsData sibling) of
               None \<Rightarrow> None
             | Some r \<Rightarrow>
                 if snd r \<noteq> None then Some (False, snd r)
                 else if \<not> fst r then Some (False, None)
                 else checkDataImports (c, contextName) inst rest))"
  by (subst checkDataImports.simps)
     (simp add: importStep_def split: sum.splits option.splits)

lemma checkDataImports_shape:
  "checkDataImports (c, contextName) inst ds = Some r \<Longrightarrow> r = (True, None) \<or> (\<exists>e. r = (False, e))"
proof (induction ds)
  case Nil
  then show ?case by simp
next
  case (Cons d ds)
  then show ?case
    by (auto simp: checkDataImports_Cons split: step.splits if_splits option.splits)
qed

lemma checkDataImports_append:
  "checkDataImports (c, contextName) inst (pre @ rest) =
     (case checkDataImports (c, contextName) inst pre of
        None \<Rightarrow> None
      | Some r \<Rightarrow> if r = (True, None) then checkDataImports (c, contextName) inst rest else Some r)"
proof (induction pre)
  case Nil
  then show ?case by simp
next
  case (Cons d pre)
  then show ?case
    by (auto simp: checkDataImports_Cons split: step.splits option.splits)
qed


lemma in_concat_Sibling:
  "s \<in> set (concat (map (\<lambda>d. case f d of Sibling s \<Rightarrow> [s] | _ \<Rightarrow> []) ds)) \<longleftrightarrow>
     (\<exists>d \<in> set ds. f d = Sibling s)"
  by (induction ds) (auto split: step.splits)

lemma in_siblingDependencies:
  "s \<in> set (siblingDependencies c contextName inst) \<longleftrightarrow>
     (\<exists>d \<in> set (instImportsData inst). importStep c contextName inst d = Sibling s)"
  unfolding siblingDependencies_def by (rule in_concat_Sibling)

lemma checkDataImports_true_iff:
  "checkDataImports (c, contextName) inst ds = Some (True, x) \<longleftrightarrow>
     x = None \<and>
     (\<forall>d \<in> set ds.
        importStep c contextName inst d = Skip \<or>
        (\<exists>s. importStep c contextName inst d = Sibling s \<and> instStatusPhase s = Completed \<and>
             checkDataImports (c, contextName) s (instImportsData s) = Some (True, None)))"
proof (induction ds)
  case Nil
  then show ?case by auto
next
  case (Cons d ds)
  show ?case
  proof (cases "importStep c contextName inst d")
    case (Abort e)
    then show ?thesis by (simp add: checkDataImports_Cons)
  next
    case Skip
    then show ?thesis using Cons.IH by (simp add: checkDataImports_Cons)
  next
    case (Sibling s)
    show ?thesis
    proof (cases "checkDataImports (c, contextName) s (instImportsData s)")
      case None
      then show ?thesis using Sibling
        by (simp add: checkDataImports_Cons IsCompletedInstallationPhase_def)
    next
      case (Some r)
      then have "r = (True, None) \<or> (\<exists>e. r = (False, e))"
        by (rule checkDataImports_shape)
      then show ?thesis using Sibling Some Cons.IH
        by (auto simp: checkDataImports_Cons IsCompletedInstallationPhase_def)
    qed
  qed
qed

lemma incomplete_never_true:
  "d \<in> set ds \<Longrightarrow> importStep c contextName inst d = Sibling s \<Longrightarrow>
   instStatusPhase s \<noteq> Completed \<Longrightarrow>
   checkDataImports (c, contextName) inst ds = Some r \<Longrightarrow> \<not> fst r"
  using checkDataImports_true_iff [of c contextName inst ds "snd r"]
  by (cases r) fastforce

lemmas fixture_defs = importStep_def getImportSource_def ImportStatus_GetData_def storeClient_def
  mkInst_def ReferenceIsObject_def IsCompletedInstallationPhase_def

subsection \<open>The first incomplete dependency fails the check\<close>

lemma importsSatisfied_true:
  "importsSatisfied c contextName inst ds \<Longrightarrow>
   checkDataImports (c, contextName) inst ds = Some (True, None)"
  by (induction rule: importsSatisfied.induct) (simp_all add: checkDataImports_Cons)

text \<open>
  Claim C1. A nil installation and one without data imports give \<^verbatim>\<open>(true, nil)\<close>. Let
  \<open>d\<close> be a declared data import of \<open>inst\<close>, every import before it being satisfied. If
  the resolved source of \<open>d\<close> is a sibling (not \<open>inst\<close> itself, not its direct parent)
  whose phase is not \<^verbatim>\<open>Completed\<close>, \<^verbatim>\<open>CheckCompletedSiblingDependents\<close> returns
  \<^verbatim>\<open>(false, nil)\<close>, whatever imports follow; if a lookup for \<open>d\<close> fails with error \<open>e\<close>,
  it returns \<^verbatim>\<open>(false, e)\<close>. Wherever such an incomplete sibling stands among the imports,
  the check never returns \<^verbatim>\<open>true\<close>.
\<close>

theorem C1_first_incomplete_dependency:
  "CheckCompletedSiblingDependents c contextName None = Some (True, None)
   \<and> (instImportsData inst = [] \<longrightarrow>
        CheckCompletedSiblingDependents c contextName (Some inst) = Some (True, None))
   \<and> (instImportsData inst = pre @ d # post \<and> importsSatisfied c contextName inst pre \<longrightarrow>
      (importStep c contextName inst d = Sibling sibling \<and> instStatusPhase sibling \<noteq> Completed
         \<longrightarrow> CheckCompletedSiblingDependents c contextName (Some inst) = Some (False, None))
    \<and> (importStep c contextName inst d = Abort e
         \<longrightarrow> CheckCompletedSiblingDependents c contextName (Some inst) = Some (False, Some e)))
   \<and> (d \<in> set (instImportsData inst) \<and>
       importStep c contextName inst d = Sibling sibling \<and> instStatusPhase sibling \<noteq> Completed
         \<longrightarrow> (\<forall>r. CheckCompletedSiblingDependents c contextName (Some inst) = Some r \<longrightarrow> \<not> fst r))"
proof (intro conjI impI allI)
  fix r
  assume "d \<in> set (instImportsData inst) \<and>
       importStep c contextName inst d = Sibling sibling \<and> instStatusPhase sibling \<noteq> Completed"
    and "CheckCompletedSiblingDependents c contextName (Some inst) = Some r"
  then show "\<not> fst r"
    using incomplete_never_true [of d "instImportsData inst" c contextName inst sibling r]
    by (simp add: CheckCompletedSiblingDependents_def)
qed (simp_all add: CheckCompletedSiblingDependents_def checkDataImports_append checkDataImports_Cons
        IsCompletedInstallationPhase_def importsSatisfied_true)

lemma store4_steps:
  "importStep (storeClient store4 parent1) ''root'' (mkInst ''a'' imps Init)
     \<lparr>importName = ''c'', importDataRef = ''c''\<rparr> = Sibling (mkInst ''c'' [] Completed)"
  "importStep (storeClient store4 parent1) ''root'' (mkInst ''a'' imps Init)
     \<lparr>importName = ''x'', importDataRef = ''x''\<rparr> = Sibling (mkInst ''x'' [] Progressing)"
  "importStep (storeClient store4 parent1) ''root'' (mkInst ''a'' imps Init)
     \<lparr>importName = ''zz'', importDataRef = ''zz''\<rparr> = Abort (Err ''not found'')"
  by (simp_all add: fixture_defs store4_def parent1_def)

lemma store4_pre:
  "importsSatisfied (storeClient store4 parent1) ''root'' (mkInst ''a'' imps Init)
     [\<lparr>importName = ''c'', importDataRef = ''c''\<rparr>]"
proof (rule importsSatisfied.completed [OF store4_steps(1)])
  show "IsCompletedInstallationPhase (instStatusPhase (mkInst ''c'' [] Completed))"
    by (simp add: IsCompletedInstallationPhase_def mkInst_def)
  show "importsSatisfied (storeClient store4 parent1) ''root'' (mkInst ''c'' [] Completed)
          (instImportsData (mkInst ''c'' [] Completed))"
    by (simp add: mkInst_def importsSatisfied.no_imports)
  show "importsSatisfied (storeClient store4 parent1) ''root'' (mkInst ''a'' imps Init) []"
    by (rule importsSatisfied.no_imports)
qed

text \<open>
  On \<open>store4\<close>, after the import from the completed \<open>c\<close>: the import from the progressing
  \<open>x\<close> fails the check, the import from the missing \<open>zz\<close> aborts it with the error of the
  lookup.
\<close>

theorem C1_first_incomplete_dependency_witness:
  "CheckCompletedSiblingDependents (storeClient store4 parent1) ''root''
     (Some (mkInst ''a'' [''c'', ''x''] Init)) = Some (False, None)
   \<and> CheckCompletedSiblingDependents (storeClient store4 parent1) ''root''
     (Some (mkInst ''a'' [''c'', ''zz''] Init)) = Some (False, Some (Err ''not found''))"
proof -
  have i: "instImportsData (mkInst ''a'' [''c'', ''x''] Init) =
             [\<lparr>importName = ''c'', importDataRef = ''c''\<rparr>] @ \<lparr>importName = ''x'', importDataRef = ''x''\<rparr> # []"
    "instImportsData (mkInst ''a'' [''c'', ''zz''] Init) =
             [\<lparr>importName = ''c'', importDataRef = ''c''\<rparr>] @ \<lparr>importName = ''zz'', importDataRef = ''zz''\<rparr> # []"
    "instStatusPhase (mkInst ''x'' [] Progressing) \<noteq> Completed"
    by (simp_all add: mkInst_def)
  show ?thesis
    using C1_first_incomplete_dependency [of "storeClient store4 parent1" "''root''" "mkInst ''a'' [''c'', ''x''] Init"
        "[\<lparr>importName = ''c'', importDataRef = ''c''\<rparr>]" "\<lparr>importName = ''x'', importDataRef = ''x''\<rparr>" "[]"
        "mkInst ''x'' [] Progressing"]
      C1_first_incomplete_dependency [of "storeClient store4 parent1" "''root''" "mkInst ''a'' [''c'', ''zz''] Init"
        "[\<lparr>importName = ''c'', importDataRef = ''c''\<rparr>]" "\<lparr>importName = ''zz'', importDataRef = ''zz''\<rparr>" "[]"
        _ "Err ''not found''"]
      i store4_steps store4_pre
    by blast
qed

subsection \<open>Transitive sibling dependencies\<close>

lemma satisfied_direct:
  assumes "CheckCompletedSiblingDependents c contextName (Some inst) = Some (True, x)"
    and "s \<in> set (siblingDependencies c contextName inst)"
  shows "instStatusPhase s = Completed \<and>
         CheckCompletedSiblingDependents c contextName (Some s) = Some (True, None)"
proof -
  from assms(1) have "checkDataImports (c, contextName) inst (instImportsData inst) = Some (True, x)"
    by (simp add: CheckCompletedSiblingDependents_def)
  then have all: "\<forall>d \<in> set (instImportsData inst).
        importStep c contextName inst d = Skip \<or>
        (\<exists>s. importStep c contextName inst d = Sibling s \<and> instStatusPhase s = Completed \<and>
             checkDataImports (c, contextName) s (instImportsData s) = Some (True, None))"
    using checkDataImports_true_iff [of c contextName inst "instImportsData inst" x] by blast
  from assms(2) obtain d where d: "d \<in> set (instImportsData inst)"
    "importStep c contextName inst d = Sibling s"
    using in_siblingDependencies [of s c contextName inst] by blast
  from all d have "instStatusPhase s = Completed \<and>
      checkDataImports (c, contextName) s (instImportsData s) = Some (True, None)"
    by fastforce
  then show ?thesis by (simp add: CheckCompletedSiblingDependents_def)
qed

lemma satisfied_trans:
  assumes "(inst, s) \<in> (dependsOn c contextName)\<^sup>+"
    and "CheckCompletedSiblingDependents c contextName (Some inst) = Some (True, x)"
  shows "instStatusPhase s = Completed \<and>
         CheckCompletedSiblingDependents c contextName (Some s) = Some (True, None)"
  using assms
proof (induction arbitrary: x rule: trancl_induct)
  case (base y)
  then have "y \<in> set (siblingDependencies c contextName inst)" by (simp add: dependsOn_def)
  with base.prems show ?case by (rule satisfied_direct)
next
  case (step y z)
  from step.IH [OF step.prems]
  have y: "CheckCompletedSiblingDependents c contextName (Some y) = Some (True, None)" by simp
  from step.hyps(2) have "z \<in> set (siblingDependencies c contextName y)" by (simp add: dependsOn_def)
  with y show ?case by (rule satisfied_direct)
qed

text \<open>
  Claim C2. \<^verbatim>\<open>CheckCompletedSiblingDependents\<close> returns \<^verbatim>\<open>true\<close> only if every direct and
  every transitive sibling dependency is \<^verbatim>\<open>Completed\<close> and has its own sibling
  dependencies satisfied. For a sibling source that is \<^verbatim>\<open>Completed\<close>, reached with every
  earlier import passed, the recursive check decides: unsatisfied gives
  \<^verbatim>\<open>(false, nil)\<close> at once, an error is passed on, and satisfied lets the loop go on
  with the remaining imports.
\<close>

theorem C2_transitive:
  "(CheckCompletedSiblingDependents c contextName (Some inst) = Some (True, x) \<longrightarrow>
      (\<forall>s. (inst, s) \<in> (dependsOn c contextName)\<^sup>+ \<longrightarrow>
           instStatusPhase s = Completed \<and>
           CheckCompletedSiblingDependents c contextName (Some s) = Some (True, None)))
   \<and> (instImportsData inst = pre @ d # post \<and>
        checkDataImports (c, contextName) inst pre = Some (True, None) \<and>
        importStep c contextName inst d = Sibling sibling \<and>
        instStatusPhase sibling = Completed \<longrightarrow>
        (CheckCompletedSiblingDependents c contextName (Some sibling) = Some (False, None) \<longrightarrow>
           CheckCompletedSiblingDependents c contextName (Some inst) = Some (False, None)) \<and>
        (CheckCompletedSiblingDependents c contextName (Some sibling) = Some (b, Some e) \<longrightarrow>
           CheckCompletedSiblingDependents c contextName (Some inst) = Some (False, Some e)) \<and>
        (CheckCompletedSiblingDependents c contextName (Some sibling) = Some (True, None) \<longrightarrow>
           CheckCompletedSiblingDependents c contextName (Some inst) =
             checkDataImports (c, contextName) inst post))"
proof (intro conjI impI allI)
  fix s
  assume "CheckCompletedSiblingDependents c contextName (Some inst) = Some (True, x)"
    and "(inst, s) \<in> (dependsOn c contextName)\<^sup>+"
  then show "instStatusPhase s = Completed"
    and "CheckCompletedSiblingDependents c contextName (Some s) = Some (True, None)"
    using satisfied_trans by blast+
qed (auto simp: CheckCompletedSiblingDependents_def checkDataImports_append checkDataImports_Cons
        IsCompletedInstallationPhase_def)

lemma store2_deps:
  "siblingDependencies (storeClient store2 parent1) ''root'' (mkInst ''a'' [''b''] Init) =
     [mkInst ''b'' [''c''] Completed]"
  "siblingDependencies (storeClient store2 parent1) ''root'' (mkInst ''b'' [''c''] Completed) =
     [mkInst ''c'' [] Completed]"
  by (simp_all add: siblingDependencies_def fixture_defs store2_def parent1_def)

lemma store2_check:
  "CheckCompletedSiblingDependents (storeClient store2 parent1) ''root''
     (Some (mkInst ''a'' [''b''] Init)) = Some (True, None)"
  by (simp add: CheckCompletedSiblingDependents_def checkDataImports_Cons fixture_defs store2_def parent1_def)

text \<open>
  On \<open>store2\<close> the check of \<open>a\<close> succeeds, and \<open>c\<close>, two imports away, is completed.
\<close>

theorem C2_transitive_witness:
  "CheckCompletedSiblingDependents (storeClient store2 parent1) ''root''
     (Some (mkInst ''a'' [''b''] Init)) = Some (True, None)
   \<and> (mkInst ''a'' [''b''] Init, mkInst ''c'' [] Completed) \<in> (dependsOn (storeClient store2 parent1) ''root'')\<^sup>+
   \<and> instStatusPhase (mkInst ''c'' [] Completed) = Completed
   \<and> CheckCompletedSiblingDependents (storeClient store2 parent1) ''root''
       (Some (mkInst ''c'' [] Completed)) = Some (True, None)"
proof -
  have "(mkInst ''a'' [''b''] Init, mkInst ''b'' [''c''] Completed) \<in> dependsOn (storeClient store2 parent1) ''root''"
    "(mkInst ''b'' [''c''] Completed, mkInst ''c'' [] Completed) \<in> dependsOn (storeClient store2 parent1) ''root''"
    by (simp_all add: dependsOn_def store2_deps)
  then have tr: "(mkInst ''a'' [''b''] Init, mkInst ''c'' [] Completed) \<in> (dependsOn (storeClient store2 parent1) ''root'')\<^sup>+"
    by (rule trancl_into_trancl [OF r_into_trancl])
  show ?thesis
    using C2_transitive [of "storeClient store2 parent1" "''root''" "mkInst ''a'' [''b''] Init" None]
      store2_check tr
    by blast
qed

subsection \<open>The walk up the ancestors\<close>

lemma OfParent_None [simp]: "CheckCompletedSiblingDependentsOfParent c None = Some (True, None)"
  by (subst CheckCompletedSiblingDependentsOfParent.simps) simp

lemma OfParent_Some:
  "CheckCompletedSiblingDependentsOfParent c (Some p) =
     (case CheckCompletedSiblingDependents c (GetInstallationContextName c p) (Some p) of
        None \<Rightarrow> None
      | Some r \<Rightarrow>
          if snd r \<noteq> None then Some (False, snd r)
          else if \<not> fst r then Some (False, None)
          else
            (case GetParent c p of
               Inl e \<Rightarrow> Some (False, Some (Wrapf ''unable to get parent of parent'' e))
             | Inr None \<Rightarrow> Some (True, None)
             | Inr (Some pp) \<Rightarrow> CheckCompletedSiblingDependentsOfParent c (Some pp)))"
  by (subst CheckCompletedSiblingDependentsOfParent.simps)
     (auto split: option.splits sum.splits)







subsection \<open>Termination\<close>

lemma cyc_never_returns:
  assumes "checkDataImports env inst ds = Some r"
  shows "\<not> (env = (storeClient storeCyc noParent, ''root'') \<and>
            ((inst = mkInst ''a'' [''b''] Completed \<and> ds = [\<lparr>importName = ''b'', importDataRef = ''b''\<rparr>]) \<or>
             (inst = mkInst ''b'' [''a''] Completed \<and> ds = [\<lparr>importName = ''a'', importDataRef = ''a''\<rparr>])))"
proof (rule checkDataImports.raw_induct
    [where P = "\<lambda>env inst ds r. \<not> (env = (storeClient storeCyc noParent, ''root'') \<and>
            ((inst = mkInst ''a'' [''b''] Completed \<and> ds = [\<lparr>importName = ''b'', importDataRef = ''b''\<rparr>]) \<or>
             (inst = mkInst ''b'' [''a''] Completed \<and> ds = [\<lparr>importName = ''a'', importDataRef = ''a''\<rparr>])))",
     OF _ assms])
  fix f :: "client \<times> string \<Rightarrow> installation \<Rightarrow> DataImport list \<Rightarrow> result option"
    and env inst ds r
  assume IH: "\<And>env inst ds r. f env inst ds = Some r \<Longrightarrow>
       \<not> (env = (storeClient storeCyc noParent, ''root'') \<and>
            ((inst = mkInst ''a'' [''b''] Completed \<and> ds = [\<lparr>importName = ''b'', importDataRef = ''b''\<rparr>]) \<or>
             (inst = mkInst ''b'' [''a''] Completed \<and> ds = [\<lparr>importName = ''a'', importDataRef = ''a''\<rparr>])))"
  have nA: "f (storeClient storeCyc noParent, ''root'') (mkInst ''a'' [''b''] Completed)
              [\<lparr>importName = ''b'', importDataRef = ''b''\<rparr>] = None"
  proof (rule ccontr)
    assume "\<not> ?thesis"
    then obtain r' where "f (storeClient storeCyc noParent, ''root'') (mkInst ''a'' [''b''] Completed)
              [\<lparr>importName = ''b'', importDataRef = ''b''\<rparr>] = Some r'" by blast
    from IH [OF this] show False by blast
  qed
  have nB: "f (storeClient storeCyc noParent, ''root'') (mkInst ''b'' [''a''] Completed)
              [\<lparr>importName = ''a'', importDataRef = ''a''\<rparr>] = None"
  proof (rule ccontr)
    assume "\<not> ?thesis"
    then obtain r' where "f (storeClient storeCyc noParent, ''root'') (mkInst ''b'' [''a''] Completed)
              [\<lparr>importName = ''a'', importDataRef = ''a''\<rparr>] = Some r'" by blast
    from IH [OF this] show False by blast
  qed
  have iA: "instImportsData (mkInst ''a'' [''b''] Completed) = [\<lparr>importName = ''b'', importDataRef = ''b''\<rparr>]"
    and iB: "instImportsData (mkInst ''b'' [''a''] Completed) = [\<lparr>importName = ''a'', importDataRef = ''a''\<rparr>]"
    by (simp_all add: mkInst_def)
  assume body: "(case ds of
        [] \<Rightarrow> Some (True, None)
      | dataImport # rest \<Rightarrow>
          (case getImportSource (fst env) (snd env) inst dataImport of
             Inl e \<Rightarrow> Some (False, Some e)
           | Inr None \<Rightarrow> f env inst rest
           | Inr (Some sourceRef) \<Rightarrow>
               if ReferenceIsObject sourceRef inst
               then f env inst rest
               else
                 (case GetParent (fst env) inst of
                    Inl e \<Rightarrow> Some (False, Some e)
                  | Inr parent \<Rightarrow>
                      if parent \<noteq> None \<and> ReferenceIsObject sourceRef (the parent)
                      then f env inst rest
                      else
                        (case Get (fst env) sourceRef of
                           Inl e \<Rightarrow> Some (False, Some e)
                         | Inr sibling \<Rightarrow>
                             if \<not> IsCompletedInstallationPhase (instStatusPhase sibling)
                             then Some (False, None)
                             else f env sibling (instImportsData sibling) \<bind>
                               (\<lambda>r. if snd r \<noteq> None then Some (False, snd r)
                               else if \<not> fst r then Some (False, None)
                               else f env inst rest))))) = Some r"
  show "\<not> (env = (storeClient storeCyc noParent, ''root'') \<and>
            ((inst = mkInst ''a'' [''b''] Completed \<and> ds = [\<lparr>importName = ''b'', importDataRef = ''b''\<rparr>]) \<or>
             (inst = mkInst ''b'' [''a''] Completed \<and> ds = [\<lparr>importName = ''a'', importDataRef = ''a''\<rparr>])))"
  proof
    assume H: "env = (storeClient storeCyc noParent, ''root'') \<and>
            ((inst = mkInst ''a'' [''b''] Completed \<and> ds = [\<lparr>importName = ''b'', importDataRef = ''b''\<rparr>]) \<or>
             (inst = mkInst ''b'' [''a''] Completed \<and> ds = [\<lparr>importName = ''a'', importDataRef = ''a''\<rparr>]))"
    then consider
      (A) "env = (storeClient storeCyc noParent, ''root'')" "inst = mkInst ''a'' [''b''] Completed"
          "ds = [\<lparr>importName = ''b'', importDataRef = ''b''\<rparr>]"
    | (B) "env = (storeClient storeCyc noParent, ''root'')" "inst = mkInst ''b'' [''a''] Completed"
          "ds = [\<lparr>importName = ''a'', importDataRef = ''a''\<rparr>]"
      by blast
    then show False
    proof cases
      case A
      have "mkInst ''b'' [''a''] Completed = \<lparr>instName = ''b'', instNamespace = ''test'',
          instImportsData = [\<lparr>importName = ''a'', importDataRef = ''a''\<rparr>],
          instStatusPhase = Completed, instStatusImports = []\<rparr>" by (simp add: mkInst_def)
      with body A nB iB show False
        by (simp add: getImportSource_def ImportStatus_GetData_def storeClient_def
            storeCyc_def noParent_def mkInst_def ReferenceIsObject_def IsCompletedInstallationPhase_def)
    next
      case B
      with body nA iA show False
        by (simp add: getImportSource_def ImportStatus_GetData_def storeClient_def
            storeCyc_def noParent_def mkInst_def ReferenceIsObject_def IsCompletedInstallationPhase_def)
    qed
  qed
qed

lemma loop_facts:
  "CheckCompletedSiblingDependents (storeClient storeLoop parentLoop) ctx (Some (mkInst ''p'' [] Completed)) = Some (True, None)"
  "CheckCompletedSiblingDependents (storeClient storeLoop parentLoop) ctx (Some (mkInst ''q'' [] Completed)) = Some (True, None)"
  "GetParent (storeClient storeLoop parentLoop) (mkInst ''p'' [] Completed) = Inr (Some (mkInst ''q'' [] Completed))"
  "GetParent (storeClient storeLoop parentLoop) (mkInst ''q'' [] Completed) = Inr (Some (mkInst ''p'' [] Completed))"
  by (simp_all add: CheckCompletedSiblingDependents_def storeClient_def storeLoop_def parentLoop_def
      mkInst_def)

lemma loop_never_returns:
  assumes "CheckCompletedSiblingDependentsOfParent c parent = Some r"
  shows "\<not> (c = storeClient storeLoop parentLoop \<and>
            (parent = Some (mkInst ''p'' [] Completed) \<or> parent = Some (mkInst ''q'' [] Completed)))"
proof (rule CheckCompletedSiblingDependentsOfParent.raw_induct
    [where P = "\<lambda>c parent r. \<not> (c = storeClient storeLoop parentLoop \<and>
            (parent = Some (mkInst ''p'' [] Completed) \<or> parent = Some (mkInst ''q'' [] Completed)))",
     OF _ assms])
  fix f :: "client \<Rightarrow> installation option \<Rightarrow> result option" and c parent r
  assume IH: "\<And>c parent r. f c parent = Some r \<Longrightarrow>
       \<not> (c = storeClient storeLoop parentLoop \<and>
            (parent = Some (mkInst ''p'' [] Completed) \<or> parent = Some (mkInst ''q'' [] Completed)))"
  have nP: "f (storeClient storeLoop parentLoop) (Some (mkInst ''p'' [] Completed)) = None"
  proof (rule ccontr)
    assume "\<not> ?thesis"
    then obtain r' where "f (storeClient storeLoop parentLoop) (Some (mkInst ''p'' [] Completed)) = Some r'"
      by blast
    from IH [OF this] show False by blast
  qed
  have nQ: "f (storeClient storeLoop parentLoop) (Some (mkInst ''q'' [] Completed)) = None"
  proof (rule ccontr)
    assume "\<not> ?thesis"
    then obtain r' where "f (storeClient storeLoop parentLoop) (Some (mkInst ''q'' [] Completed)) = Some r'"
      by blast
    from IH [OF this] show False by blast
  qed
  assume body: "(case parent of
        None \<Rightarrow> Some (True, None)
      | Some p \<Rightarrow>
          CheckCompletedSiblingDependents c (GetInstallationContextName c p) (Some p) \<bind>
          (\<lambda>r. if snd r \<noteq> None then Some (False, snd r)
               else if \<not> fst r then Some (fst r, None)
               else (case GetParent c p of
                       Inl e \<Rightarrow> Some (False, Some (Wrapf ''unable to get parent of parent'' e))
                     | Inr None \<Rightarrow> Some (True, None)
                     | Inr (Some parentsParentInst) \<Rightarrow> f c (Some parentsParentInst)))) = Some r"
  show "\<not> (c = storeClient storeLoop parentLoop \<and>
            (parent = Some (mkInst ''p'' [] Completed) \<or> parent = Some (mkInst ''q'' [] Completed)))"
  proof
    assume "c = storeClient storeLoop parentLoop \<and>
            (parent = Some (mkInst ''p'' [] Completed) \<or> parent = Some (mkInst ''q'' [] Completed))"
    then consider (P) "c = storeClient storeLoop parentLoop" "parent = Some (mkInst ''p'' [] Completed)"
      | (Q) "c = storeClient storeLoop parentLoop" "parent = Some (mkInst ''q'' [] Completed)"
      by blast
    then show False
    proof cases
      case P
      with body nQ show False by (simp add: loop_facts)
    next
      case Q
      with body nP show False by (simp add: loop_facts)
    qed
  qed
qed

text \<open>
  Claim C8 as stated fails: the source keeps no visited-set and no bound on the
  recursion. Neither function returns on a cycle: the sibling walk on two completed
  installations that import from each other, the ancestor walk on two installations that
  are each other's parent.
\<close>

theorem C8_counterexample:
  "CheckCompletedSiblingDependents (storeClient storeCyc noParent) ''root''
     (Some (mkInst ''a'' [''b''] Completed)) = None
   \<and> CheckCompletedSiblingDependentsOfParent (storeClient storeLoop parentLoop)
     (Some (mkInst ''p'' [] Completed)) = None"
proof
  show "CheckCompletedSiblingDependents (storeClient storeCyc noParent) ''root''
     (Some (mkInst ''a'' [''b''] Completed)) = None"
  proof (rule ccontr)
    assume "\<not> ?thesis"
    then obtain r where "checkDataImports (storeClient storeCyc noParent, ''root'')
        (mkInst ''a'' [''b''] Completed) [\<lparr>importName = ''b'', importDataRef = ''b''\<rparr>] = Some r"
      by (auto simp: CheckCompletedSiblingDependents_def mkInst_def)
    from cyc_never_returns [OF this] show False by blast
  qed
  show "CheckCompletedSiblingDependentsOfParent (storeClient storeLoop parentLoop)
     (Some (mkInst ''p'' [] Completed)) = None"
  proof (rule ccontr)
    assume "\<not> ?thesis"
    then obtain r where "CheckCompletedSiblingDependentsOfParent (storeClient storeLoop parentLoop)
     (Some (mkInst ''p'' [] Completed)) = Some r" by blast
    from loop_never_returns [OF this] show False by blast
  qed
qed

lemma checkDataImports_returns:
  assumes rk: "\<And>i s. s \<in> set (siblingDependencies c contextName i) \<Longrightarrow>
                 IsCompletedInstallationPhase (instStatusPhase s) \<Longrightarrow> rk s < (rk i :: nat)"
  shows "set ds \<subseteq> set (instImportsData inst) \<Longrightarrow> \<exists>r. checkDataImports (c, contextName) inst ds = Some r"
proof (induction "rk inst" arbitrary: inst ds rule: less_induct)
  case less
  from less.prems show ?case
  proof (induction ds)
    case Nil
    show ?case by auto
  next
    case (Cons d ds)
    then obtain r where r: "checkDataImports (c, contextName) inst ds = Some r" by auto
    show ?case
    proof (cases "importStep c contextName inst d")
      case (Abort e)
      then show ?thesis by (auto simp: checkDataImports_Cons)
    next
      case Skip
      then show ?thesis using r by (auto simp: checkDataImports_Cons)
    next
      case (Sibling s)
      show ?thesis
      proof (cases "IsCompletedInstallationPhase (instStatusPhase s)")
        case False
        then show ?thesis using Sibling by (auto simp: checkDataImports_Cons)
      next
        case True
        from Cons.prems Sibling have "s \<in> set (siblingDependencies c contextName inst)"
          using in_siblingDependencies [of s c contextName inst] by auto
        with True have "rk s < rk inst" using rk by blast
        from less.hyps [OF this, of "instImportsData s"]
        obtain r' where "checkDataImports (c, contextName) s (instImportsData s) = Some r'" by auto
        then show ?thesis using Sibling True r by (auto simp: checkDataImports_Cons)
      qed
    qed
  qed
qed

lemma OfParent_returns:
  assumes rk: "\<And>contextName i s. s \<in> set (siblingDependencies c contextName i) \<Longrightarrow>
                 IsCompletedInstallationPhase (instStatusPhase s) \<Longrightarrow> rk s < (rk i :: nat)"
    and prk: "\<And>i p. GetParent c i = Inr (Some p) \<Longrightarrow> prk p < (prk i :: nat)"
  shows "\<exists>r. CheckCompletedSiblingDependentsOfParent c (Some p) = Some r"
proof (induction "prk p" arbitrary: p rule: less_induct)
  case less
  obtain r0 where r0: "CheckCompletedSiblingDependents c (GetInstallationContextName c p) (Some p) = Some r0"
    using checkDataImports_returns [of c "GetInstallationContextName c p" rk "instImportsData p" p] rk
    by (auto simp: CheckCompletedSiblingDependents_def)
  show ?case
  proof (cases "GetParent c p")
    case (Inl e)
    then show ?thesis using r0 by (subst OfParent_Some) auto
  next
    case (Inr pp)
    show ?thesis
    proof (cases pp)
      case None
      then show ?thesis using r0 Inr by (subst OfParent_Some) auto
    next
      case (Some q)
      with Inr have "prk q < prk p" by (intro prk) simp
      from less.hyps [OF this] obtain r where "CheckCompletedSiblingDependentsOfParent c (Some q) = Some r"
        by blast
      then show ?thesis using r0 Inr Some by (subst OfParent_Some) auto
    qed
  qed
qed

lemma import_body_step:
  "(case getImportSource c contextName inst d of
      Inl e \<Rightarrow> A e
    | Inr None \<Rightarrow> B
    | Inr (Some sourceRef) \<Rightarrow>
        if ReferenceIsObject sourceRef inst then B
        else
          (case GetParent c inst of
             Inl e \<Rightarrow> A e
           | Inr parent \<Rightarrow>
               if parent \<noteq> None \<and> ReferenceIsObject sourceRef (the parent) then B
               else (case Get c sourceRef of Inl e \<Rightarrow> A e | Inr sibling \<Rightarrow> C sibling))) =
   (case importStep c contextName inst d of Abort e \<Rightarrow> A e | Skip \<Rightarrow> B | Sibling s \<Rightarrow> C s)"
  by (simp add: importStep_def split: sum.splits option.splits)

lemma closed_never_returns:
  assumes closed: "\<And>i. i \<in> S \<Longrightarrow> siblingDependencies c contextName i \<noteq> [] \<and>
             (\<forall>d \<in> set (instImportsData i).
                importStep c contextName i d = Skip \<or>
                (\<exists>s \<in> S. importStep c contextName i d = Sibling s \<and>
                   IsCompletedInstallationPhase (instStatusPhase s)))"
    and ret: "checkDataImports env inst ds = Some r"
  shows "\<not> (env = (c, contextName) \<and> inst \<in> S \<and> set ds \<subseteq> set (instImportsData inst) \<and>
            (\<exists>d \<in> set ds. \<exists>s. importStep c contextName inst d = Sibling s))"
proof (rule checkDataImports.raw_induct
    [where P = "\<lambda>env inst ds r. \<not> (env = (c, contextName) \<and> inst \<in> S \<and>
            set ds \<subseteq> set (instImportsData inst) \<and>
            (\<exists>d \<in> set ds. \<exists>s. importStep c contextName inst d = Sibling s))",
     OF _ ret])
  fix f :: "client \<times> string \<Rightarrow> installation \<Rightarrow> DataImport list \<Rightarrow> result option"
    and env inst ds r
  assume IH: "\<And>env inst ds r. f env inst ds = Some r \<Longrightarrow>
       \<not> (env = (c, contextName) \<and> inst \<in> S \<and> set ds \<subseteq> set (instImportsData inst) \<and>
            (\<exists>d \<in> set ds. \<exists>s. importStep c contextName inst d = Sibling s))"
  assume body: "(case ds of
        [] \<Rightarrow> Some (True, None)
      | dataImport # rest \<Rightarrow>
          (case getImportSource (fst env) (snd env) inst dataImport of
             Inl e \<Rightarrow> Some (False, Some e)
           | Inr None \<Rightarrow> f env inst rest
           | Inr (Some sourceRef) \<Rightarrow>
               if ReferenceIsObject sourceRef inst
               then f env inst rest
               else
                 (case GetParent (fst env) inst of
                    Inl e \<Rightarrow> Some (False, Some e)
                  | Inr parent \<Rightarrow>
                      if parent \<noteq> None \<and> ReferenceIsObject sourceRef (the parent)
                      then f env inst rest
                      else
                        (case Get (fst env) sourceRef of
                           Inl e \<Rightarrow> Some (False, Some e)
                         | Inr sibling \<Rightarrow>
                             if \<not> IsCompletedInstallationPhase (instStatusPhase sibling)
                             then Some (False, None)
                             else f env sibling (instImportsData sibling) \<bind>
                               (\<lambda>r. if snd r \<noteq> None then Some (False, snd r)
                               else if \<not> fst r then Some (False, None)
                               else f env inst rest))))) = Some r"
  show "\<not> (env = (c, contextName) \<and> inst \<in> S \<and> set ds \<subseteq> set (instImportsData inst) \<and>
            (\<exists>d \<in> set ds. \<exists>s. importStep c contextName inst d = Sibling s))"
  proof
    assume H: "env = (c, contextName) \<and> inst \<in> S \<and> set ds \<subseteq> set (instImportsData inst) \<and>
            (\<exists>d \<in> set ds. \<exists>s. importStep c contextName inst d = Sibling s)"
    then have env: "env = (c, contextName)" and inS: "inst \<in> S"
      and sub: "set ds \<subseteq> set (instImportsData inst)"
      and ex: "\<exists>d \<in> set ds. \<exists>s. importStep c contextName inst d = Sibling s" by simp_all
    from ex obtain d rest where ds: "ds = d # rest" by (cases ds) auto
    from closed [OF inS] sub ds
    have stepd: "importStep c contextName inst d = Skip \<or>
                (\<exists>s \<in> S. importStep c contextName inst d = Sibling s \<and>
                   IsCompletedInstallationPhase (instStatusPhase s))" by auto
    have body': "(case importStep c contextName inst d of
        Abort e \<Rightarrow> Some (False, Some e)
      | Skip \<Rightarrow> f env inst rest
      | Sibling sibling \<Rightarrow>
          if \<not> IsCompletedInstallationPhase (instStatusPhase sibling) then Some (False, None)
          else f env sibling (instImportsData sibling) \<bind>
                 (\<lambda>r. if snd r \<noteq> None then Some (False, snd r)
                      else if \<not> fst r then Some (False, None)
                      else f env inst rest)) = Some r"
      using body unfolding ds env list.case fst_conv snd_conv import_body_step .
    from stepd show False
    proof
      assume sk: "importStep c contextName inst d = Skip"
      with body' have fr: "f env inst rest = Some r" by simp
      from ex ds sk have "\<exists>d \<in> set rest. \<exists>s. importStep c contextName inst d = Sibling s" by auto
      with IH [OF fr] env inS sub ds show False by auto
    next
      assume "\<exists>s \<in> S. importStep c contextName inst d = Sibling s \<and>
                   IsCompletedInstallationPhase (instStatusPhase s)"
      then obtain s where s: "s \<in> S" "importStep c contextName inst d = Sibling s"
        "IsCompletedInstallationPhase (instStatusPhase s)" by blast
      with body' obtain r' where fs: "f env s (instImportsData s) = Some r'"
        by (auto split: Option.bind_splits)
      from closed [OF s(1)] have "siblingDependencies c contextName s \<noteq> []" by simp
      then have "\<exists>d \<in> set (instImportsData s). \<exists>t. importStep c contextName s d = Sibling t"
        using in_siblingDependencies [of _ c contextName s]
        by (cases "siblingDependencies c contextName s") (auto, metis list.set_intros(1))
      with IH [OF fs] env s(1) show False by auto
    qed
  qed
qed

lemma closed_check_none:
  assumes "\<forall>i \<in> S. siblingDependencies c contextName i \<noteq> [] \<and>
             (\<forall>d \<in> set (instImportsData i).
                importStep c contextName i d = Skip \<or>
                (\<exists>s \<in> S. importStep c contextName i d = Sibling s \<and>
                   IsCompletedInstallationPhase (instStatusPhase s)))"
    and "inst \<in> S"
  shows "CheckCompletedSiblingDependents c contextName (Some inst) = None"
proof (rule ccontr)
  assume "\<not> ?thesis"
  then obtain r where r: "checkDataImports (c, contextName) inst (instImportsData inst) = Some r"
    by (auto simp: CheckCompletedSiblingDependents_def)
  from assms have "siblingDependencies c contextName inst \<noteq> []" by blast
  then have ex: "\<exists>d \<in> set (instImportsData inst). \<exists>t. importStep c contextName inst d = Sibling t"
    using in_siblingDependencies [of _ c contextName inst]
    by (cases "siblingDependencies c contextName inst") (auto, metis list.set_intros(1))
  from closed_never_returns [of S c contextName "(c, contextName)" inst "instImportsData inst" r] assms r ex
  show False by blast
qed

lemma parent_closed_never_returns:
  assumes closed: "\<And>p. p \<in> P \<Longrightarrow> siblingsSatisfied c p \<and> (\<exists>q \<in> P. GetParent c p = Inr (Some q))"
    and ret: "CheckCompletedSiblingDependentsOfParent c' parent = Some r"
  shows "\<not> (c' = c \<and> (\<exists>p \<in> P. parent = Some p))"
proof (rule CheckCompletedSiblingDependentsOfParent.raw_induct
    [where P = "\<lambda>c' parent r. \<not> (c' = c \<and> (\<exists>p \<in> P. parent = Some p))", OF _ ret])
  fix f :: "client \<Rightarrow> installation option \<Rightarrow> result option" and c' parent r
  assume IH: "\<And>c' parent r. f c' parent = Some r \<Longrightarrow> \<not> (c' = c \<and> (\<exists>p \<in> P. parent = Some p))"
  assume body: "(case parent of
        None \<Rightarrow> Some (True, None)
      | Some p \<Rightarrow>
          CheckCompletedSiblingDependents c' (GetInstallationContextName c' p) (Some p) \<bind>
          (\<lambda>r. if snd r \<noteq> None then Some (False, snd r)
               else if \<not> fst r then Some (fst r, None)
               else (case GetParent c' p of
                       Inl e \<Rightarrow> Some (False, Some (Wrapf ''unable to get parent of parent'' e))
                     | Inr None \<Rightarrow> Some (True, None)
                     | Inr (Some parentsParentInst) \<Rightarrow> f c' (Some parentsParentInst)))) = Some r"
  show "\<not> (c' = c \<and> (\<exists>p \<in> P. parent = Some p))"
  proof
    assume "c' = c \<and> (\<exists>p \<in> P. parent = Some p)"
    then obtain p where p: "c' = c" "p \<in> P" "parent = Some p" by blast
    from closed [OF p(2)] obtain q where q: "q \<in> P" "GetParent c p = Inr (Some q)"
      and sat: "siblingsSatisfied c p" by blast
    from body p q sat have "f c (Some q) = Some r" by (simp add: siblingsSatisfied_def)
    from IH [OF this] q(1) show False by blast
  qed
qed

lemma parent_closed_none:
  assumes "\<forall>p \<in> P. siblingsSatisfied c p \<and> (\<exists>q \<in> P. GetParent c p = Inr (Some q))"
    and "p \<in> P"
  shows "CheckCompletedSiblingDependentsOfParent c (Some p) = None"
proof (rule ccontr)
  assume "\<not> ?thesis"
  then obtain r where "CheckCompletedSiblingDependentsOfParent c (Some p) = Some r" by blast
  from parent_closed_never_returns [of P c c "Some p" r] assms this show False by blast
qed

text \<open>
  Claim C8, amended. The walks are guarded by nothing but the shape of the store.
  \<^verbatim>\<open>CheckCompletedSiblingDependents\<close> returns on every store in which the imports from
  completed siblings are free of cycles (some rank decreases from an installation to each
  completed sibling it imports from), and \<^verbatim>\<open>CheckCompletedSiblingDependentsOfParent\<close>
  returns when the parent links decrease a rank as well. On a set of installations each
  of which imports from at least one sibling, and all of whose imports are skipped or
  resolve to completed siblings in the set, the sibling walk returns for no member; on a
  set of installations with satisfied sibling dependents, each with its parent in the
  set, the ancestor walk returns for no member.
\<close>

theorem C8_amended:
  "((\<forall>contextName i s. s \<in> set (siblingDependencies c contextName i) \<and>
        IsCompletedInstallationPhase (instStatusPhase s) \<longrightarrow> rk s < (rk i :: nat)) \<longrightarrow>
      (\<exists>r. CheckCompletedSiblingDependents c contextName inst = Some r) \<and>
      ((\<forall>i p. GetParent c i = Inr (Some p) \<longrightarrow> prk p < (prk i :: nat)) \<longrightarrow>
         (\<exists>r. CheckCompletedSiblingDependentsOfParent c parent = Some r)))
   \<and> ((\<forall>i \<in> S. siblingDependencies c contextName i \<noteq> [] \<and>
          (\<forall>d \<in> set (instImportsData i).
             importStep c contextName i d = Skip \<or>
             (\<exists>s \<in> S. importStep c contextName i d = Sibling s \<and>
                IsCompletedInstallationPhase (instStatusPhase s)))) \<longrightarrow>
        (\<forall>i \<in> S. CheckCompletedSiblingDependents c contextName (Some i) = None))
   \<and> ((\<forall>p \<in> P. siblingsSatisfied c p \<and> (\<exists>q \<in> P. GetParent c p = Inr (Some q))) \<longrightarrow>
        (\<forall>p \<in> P. CheckCompletedSiblingDependentsOfParent c (Some p) = None))"
proof (intro conjI impI)
  assume rk: "\<forall>contextName i s. s \<in> set (siblingDependencies c contextName i) \<and>
        IsCompletedInstallationPhase (instStatusPhase s) \<longrightarrow> rk s < rk i"
  show "\<exists>r. CheckCompletedSiblingDependents c contextName inst = Some r"
  proof (cases inst)
    case None
    then show ?thesis by (auto simp: CheckCompletedSiblingDependents_def)
  next
    case (Some i)
    then show ?thesis
      using checkDataImports_returns [of c contextName rk "instImportsData i" i] rk
      by (auto simp: CheckCompletedSiblingDependents_def)
  qed
  assume prk: "\<forall>i p. GetParent c i = Inr (Some p) \<longrightarrow> prk p < prk i"
  show "\<exists>r. CheckCompletedSiblingDependentsOfParent c parent = Some r"
  proof (cases parent)
    case None
    then show ?thesis by auto
  next
    case (Some p)
    then show ?thesis using OfParent_returns [of c rk prk p] rk prk by blast
  qed
next
  assume "\<forall>i \<in> S. siblingDependencies c contextName i \<noteq> [] \<and>
          (\<forall>d \<in> set (instImportsData i).
             importStep c contextName i d = Skip \<or>
             (\<exists>s \<in> S. importStep c contextName i d = Sibling s \<and>
                IsCompletedInstallationPhase (instStatusPhase s)))"
  then show "\<forall>i \<in> S. CheckCompletedSiblingDependents c contextName (Some i) = None"
    using closed_check_none [of S c contextName] by blast
next
  assume "\<forall>p \<in> P. siblingsSatisfied c p \<and> (\<exists>q \<in> P. GetParent c p = Inr (Some q))"
  then show "\<forall>p \<in> P. CheckCompletedSiblingDependentsOfParent c (Some p) = None"
    using parent_closed_none [of P c] by blast
qed

lemma deps_in_store:
  assumes "s \<in> set (siblingDependencies (storeClient st par) contextName i)"
  shows "s \<in> set st"
proof -
  from assms obtain d where "importStep (storeClient st par) contextName i d = Sibling s"
    using in_siblingDependencies [of s "storeClient st par" contextName i] by blast
  then obtain ref where "Get (storeClient st par) ref = Inr s"
    by (auto simp: importStep_def split: sum.splits option.splits if_splits)
  then have "find (ReferenceIsObject ref) st = Some s"
    by (auto simp: storeClient_def split: option.splits)
  then show ?thesis by (auto simp: find_Some_iff)
qed

lemma store2_rank:
  assumes "s \<in> set (siblingDependencies (storeClient store2 parent1) contextName i)"
    and "IsCompletedInstallationPhase (instStatusPhase s)"
  shows "rank2 s < rank2 i"
proof -
  from deps_in_store [OF assms(1)] assms(2)
  have s: "s = mkInst ''b'' [''c''] Completed \<or> s = mkInst ''c'' [] Completed"
    by (auto simp: store2_def mkInst_def IsCompletedInstallationPhase_def)
  have c: "siblingDependencies (storeClient store2 parent1) contextName (mkInst ''c'' [] Completed) = []"
    by (simp add: siblingDependencies_def mkInst_def)
  have b: "siblingDependencies (storeClient store2 parent1) contextName (mkInst ''b'' [''c''] Completed) =
     [mkInst ''c'' [] Completed]"
    by (simp add: siblingDependencies_def fixture_defs store2_def parent1_def)
  have ne: "mkInst ''b'' [''c''] Completed \<noteq> mkInst ''c'' [] Completed" by (simp add: mkInst_def)
  from assms(1) c have ic: "i \<noteq> mkInst ''c'' [] Completed" by auto
  show ?thesis
  proof (cases "i = mkInst ''b'' [''c''] Completed")
    case True
    with assms(1) b have "s = mkInst ''c'' [] Completed" by simp
    with True ne show ?thesis by (simp add: rank2_def)
  next
    case False
    with ic s ne show ?thesis by (auto simp: rank2_def)
  qed
qed

lemma store2_prank:
  assumes "GetParent (storeClient store2 parent1) i = Inr (Some p)"
  shows "prank1 p < prank1 i"
proof -
  from assms have "instName i \<noteq> ''root''"
    by (auto simp: storeClient_def parent1_def split: if_splits)
  moreover from assms have "instName p = ''root''"
    by (auto simp: storeClient_def parent1_def find_Some_iff split: if_splits option.splits)
  ultimately show ?thesis by (simp add: prank1_def)
qed

lemma storeCyc_closed:
  "\<forall>i \<in> {mkInst ''a'' [''b''] Completed, mkInst ''b'' [''a''] Completed}.
     siblingDependencies (storeClient storeCyc noParent) ''root'' i \<noteq> [] \<and>
     (\<forall>d \<in> set (instImportsData i).
        importStep (storeClient storeCyc noParent) ''root'' i d = Skip \<or>
        (\<exists>s \<in> {mkInst ''a'' [''b''] Completed, mkInst ''b'' [''a''] Completed}.
           importStep (storeClient storeCyc noParent) ''root'' i d = Sibling s \<and>
           IsCompletedInstallationPhase (instStatusPhase s)))"
  by (simp add: siblingDependencies_def fixture_defs storeCyc_def noParent_def)

lemma storeLoop_closed:
  "\<forall>p \<in> {mkInst ''p'' [] Completed, mkInst ''q'' [] Completed}.
     siblingsSatisfied (storeClient storeLoop parentLoop) p \<and>
     (\<exists>q \<in> {mkInst ''p'' [] Completed, mkInst ''q'' [] Completed}.
        GetParent (storeClient storeLoop parentLoop) p = Inr (Some q))"
  by (simp add: siblingsSatisfied_def loop_facts)

text \<open>
  \<open>store2\<close> is free of cycles, and both walks return on it; the two malformed stores are
  closed sets of the kind above.
\<close>

theorem C8_amended_witness:
  "(\<exists>r. CheckCompletedSiblingDependents (storeClient store2 parent1) ''root''
           (Some (mkInst ''a'' [''b''] Init)) = Some r)
   \<and> (\<exists>r. CheckCompletedSiblingDependentsOfParent (storeClient store2 parent1)
           (Some (mkInst ''a'' [''b''] Init)) = Some r)
   \<and> CheckCompletedSiblingDependents (storeClient storeCyc noParent) ''root''
           (Some (mkInst ''b'' [''a''] Completed)) = None
   \<and> CheckCompletedSiblingDependentsOfParent (storeClient storeLoop parentLoop)
           (Some (mkInst ''q'' [] Completed)) = None"
proof -
  have rk: "\<forall>contextName i s. s \<in> set (siblingDependencies (storeClient store2 parent1) contextName i) \<and>
        IsCompletedInstallationPhase (instStatusPhase s) \<longrightarrow> rank2 s < rank2 i"
    using store2_rank by blast
  have prk: "\<forall>i p. GetParent (storeClient store2 parent1) i = Inr (Some p) \<longrightarrow> prank1 p < prank1 i"
    using store2_prank by blast
  note pos = C8_amended [of "storeClient store2 parent1" rank2 "''root''" "Some (mkInst ''a'' [''b''] Init)"
        prank1 "Some (mkInst ''a'' [''b''] Init)" "{}" "{}", THEN conjunct1, THEN mp, OF rk]
  note neg1 = C8_amended [of "storeClient storeCyc noParent" rank2 "''root''" None prank1 None
        "{mkInst ''a'' [''b''] Completed, mkInst ''b'' [''a''] Completed}" "{}",
        THEN conjunct2, THEN conjunct1, THEN mp, OF storeCyc_closed]
  note neg2 = C8_amended [of "storeClient storeLoop parentLoop" rank2 "''root''" None prank1 None "{}"
        "{mkInst ''p'' [] Completed, mkInst ''q'' [] Completed}",
        THEN conjunct2, THEN conjunct2, THEN mp, OF storeLoop_closed]
  have a: "\<exists>r. CheckCompletedSiblingDependents (storeClient store2 parent1) ''root''
           (Some (mkInst ''a'' [''b''] Init)) = Some r"
    using pos by (rule conjunct1)
  have b: "\<exists>r. CheckCompletedSiblingDependentsOfParent (storeClient store2 parent1)
           (Some (mkInst ''a'' [''b''] Init)) = Some r"
    using pos [THEN conjunct2] prk by blast
  have c: "CheckCompletedSiblingDependents (storeClient storeCyc noParent) ''root''
           (Some (mkInst ''b'' [''a''] Completed)) = None"
    using neg1 by simp
  have d: "CheckCompletedSiblingDependentsOfParent (storeClient storeLoop parentLoop)
           (Some (mkInst ''q'' [] Completed)) = None"
    using neg2 by simp
  from a b c d show ?thesis by (intro conjI)
qed

section \<open>Properties of the execution controller\<close>

subsection \<open>Annotations and generation\<close>

lemma operations_distinct: "ReconcileOperation \<noteq> ForceReconcileOperation"
  by (simp add: ReconcileOperation_def ForceReconcileOperation_def)

lemma force_not_reconcile:
  "HasOperation exec ForceReconcileOperation \<Longrightarrow> \<not> HasOperation exec ReconcileOperation"
  using operations_distinct by (auto simp: HasOperation_def)

lemma HAG_required_status:
  assumes "reconcileRequired exec"
  shows "\<exists>rest. effects (HandleAnnotationsAndGeneration c exec) =
           UpdateExecutionStatus ''W000033'' (normalized exec) # rest"
    and "Status (execAfter (HandleAnnotationsAndGeneration c exec)) =
           (Status exec)\<lparr>ObservedGeneration := Generation exec, Phase := Init\<rparr>"
    and "Generation (execAfter (HandleAnnotationsAndGeneration c exec)) = Generation exec"
  using assms
  by (auto simp: HandleAnnotationsAndGeneration_def reconcileRequired_def normalized_def Let_def
      split: option.splits)

lemma HAG_status_write_fails:
  assumes "reconcileRequired exec"
    and "writerUpdateExecutionStatus c ''W000033'' (normalized exec) = Some e"
  shows "HandleAnnotationsAndGeneration c exec =
           \<lparr>returned = Some (NewWrappedError e ''HandleAnnotationsAndGeneration''
                               ''update execution status'' (errorString e)),
            execAfter = normalized exec,
            effects = [UpdateExecutionStatus ''W000033'' (normalized exec)]\<rparr>"
  using assms
  by (simp add: HandleAnnotationsAndGeneration_def reconcileRequired_def normalized_def Let_def)

lemma HAG_reconcile_annotation:
  assumes "HasOperation exec ReconcileOperation"
    and "writerUpdateExecutionStatus c ''W000033'' (normalized exec) = None"
  shows "execAfter (HandleAnnotationsAndGeneration c exec) =
           (normalized exec)\<lparr>Annotations := (Annotations exec)(OperationAnnotation := None)\<rparr>"
    and "effects (HandleAnnotationsAndGeneration c exec) =
           [UpdateExecutionStatus ''W000033'' (normalized exec),
            UpdateExecution ''W000027'' (execAfter (HandleAnnotationsAndGeneration c exec))]"
    and "\<not> HasOperation (execAfter (HandleAnnotationsAndGeneration c exec)) ReconcileOperation"
  using assms
  by (auto simp: HandleAnnotationsAndGeneration_def normalized_def Let_def HasOperation_def
      split: option.splits)

lemma HAG_no_reconcile_annotation:
  assumes "\<not> HasOperation exec ReconcileOperation"
  shows "Annotations (execAfter (HandleAnnotationsAndGeneration c exec)) = Annotations exec"
    and "\<forall>fx \<in> set (effects (HandleAnnotationsAndGeneration c exec)).
           fx = UpdateExecutionStatus ''W000033'' (normalized exec)"
  using assms
  by (auto simp: HandleAnnotationsAndGeneration_def normalized_def Let_def split: option.splits)

lemma HAG_keeps_force:
  assumes "HasOperation exec ForceReconcileOperation"
  shows "HasOperation (execAfter (HandleAnnotationsAndGeneration c exec)) ForceReconcileOperation"
  using HAG_no_reconcile_annotation(1) [OF force_not_reconcile [OF assms], of c] assms
  by (simp add: HasOperation_def)

lemma HAG_frame:
  "Finalizers (execAfter (HandleAnnotationsAndGeneration c exec)) = Finalizers exec"
  "DeletionTimestamp (execAfter (HandleAnnotationsAndGeneration c exec)) = DeletionTimestamp exec"
  "\<forall>fx \<in> set (effects (HandleAnnotationsAndGeneration c exec)). \<not> isOpCall fx"
  by (auto simp: HandleAnnotationsAndGeneration_def Let_def isOpCall_def split: option.splits)

lemma HAG_force_flag:
  "HasOperation (execAfter (HandleAnnotationsAndGeneration c exec)) ForceReconcileOperation =
     HasOperation exec ForceReconcileOperation"
  using operations_distinct
  by (auto simp: HandleAnnotationsAndGeneration_def Let_def HasOperation_def split: option.splits)

lemma removeForce_removes:
  "\<not> HasOperation (execAfter (removeForceReconcileAnnotation c exec)) ForceReconcileOperation"
  by (auto simp: removeForceReconcileAnnotation_def Let_def HasOperation_def split: option.splits)

lemma removeForce_patch:
  assumes "HasOperation exec ForceReconcileOperation"
  shows "\<exists>rest. effects (removeForceReconcileAnnotation c exec) =
           PatchExecution ''W000029''
             (exec\<lparr>Annotations := (Annotations exec)(OperationAnnotation := None)\<rparr>) exec # rest"
  using assms
  by (auto simp: removeForceReconcileAnnotation_def Let_def split: option.splits)


lemma EnsureOperation_flag:
  "\<forall>fx \<in> set (effects (EnsureOperation c exec fx0)) - set fx0.
     opCallForce fx = Some (HasOperation exec ForceReconcileOperation)"
  by (auto simp: EnsureOperation_def Let_def split: prod.splits option.splits)

lemma Ensure_force_flag:
  "\<forall>fx \<in> set (effects (Ensure c exec)). isOpCall fx \<longrightarrow>
     opCallForce fx = Some (HasOperation exec ForceReconcileOperation)"
proof -
  let ?h = "HandleAnnotationsAndGeneration c exec"
  have noop: "\<forall>fx \<in> set (effects ?h). \<not> isOpCall fx" by (rule HAG_frame(3))
  show ?thesis
  proof (cases "returned ?h")
    case (Some e)
    then show ?thesis using noop by (simp add: Ensure_def Let_def)
  next
    case None
    show ?thesis
    proof (cases "DeletionTimestamp (execAfter ?h) = None \<and> \<not> HasFinalizer (execAfter ?h) LandscaperFinalizer")
      case False
      then have E: "Ensure c exec = EnsureOperation c (execAfter ?h) (effects ?h)"
        using None by (auto simp: Ensure_def Let_def)
      show ?thesis
        using EnsureOperation_flag [of c "execAfter ?h" "effects ?h"] noop
        unfolding E HAG_force_flag by blast
    next
      case True
      let ?e2 = "AddFinalizer (execAfter ?h) LandscaperFinalizer"
      let ?fx = "effects ?h @ [UpdateExecution ''W000025'' ?e2]"
      have noop2: "\<forall>fx \<in> set ?fx. \<not> isOpCall fx" using noop by (auto simp: isOpCall_def)
      have flag: "HasOperation ?e2 ForceReconcileOperation = HasOperation exec ForceReconcileOperation"
        using HAG_force_flag [of c exec] by (simp add: AddFinalizer_def HasOperation_def)
      show ?thesis
      proof (cases "writerUpdateExecution c ''W000025'' ?e2")
        case None': None
        then have E: "Ensure c exec = EnsureOperation c ?e2 ?fx"
          using None True by (simp add: Ensure_def Let_def)
        show ?thesis
          using EnsureOperation_flag [of c ?e2 ?fx] noop2
          unfolding E flag by blast
      next
        case (Some err)
        then have "effects (Ensure c exec) = ?fx"
          using None True by (simp add: Ensure_def Let_def)
        then show ?thesis using noop2 by simp
      qed
    qed
  qed
qed

lemmas controller_defs = Ensure_def EnsureOperation_def HandleAnnotationsAndGeneration_def
  removeForceReconcileAnnotation_def handleError_def Reconcile_def Let_def
  HasOperation_def HasIgnoreAnnotation_def HasFinalizer_def AddFinalizer_def
  IsCompletedExecutionPhase_def GetPhaseForLastError_def TryUpdateLsError_def
  OperationAnnotation_def ReconcileOperation_def ForceReconcileOperation_def
  IgnoreAnnotation_def LandscaperFinalizer_def NewError_def NewWrappedError_def

text \<open>
  Claim C4. When a reconcile annotation, a force-reconcile annotation or an outdated
  observed generation is seen, \<^verbatim>\<open>HandleAnnotationsAndGeneration\<close> sets
  \<^verbatim>\<open>Status.ObservedGeneration = Generation\<close> and \<^verbatim>\<open>Status.Phase = Init\<close> and first of all
  writes that status (a failure of the write is returned and ends the function). After
  the status write only the reconcile annotation is removed, followed by an update of
  the execution; without a reconcile annotation the annotations stay as they are, so a
  force-reconcile annotation is still there afterwards, the operation in \<^verbatim>\<open>Ensure\<close> is
  created with \<^verbatim>\<open>forceReconcile = true\<close>, and it is
  \<^verbatim>\<open>removeForceReconcileAnnotation\<close> that deletes and patches it away.
\<close>

theorem C4_annotations_and_generation:
  "(reconcileRequired exec \<longrightarrow>
      (\<exists>rest. effects (HandleAnnotationsAndGeneration c exec) =
         UpdateExecutionStatus ''W000033'' (normalized exec) # rest) \<and>
      ObservedGeneration (Status (normalized exec)) = Generation exec \<and>
      Phase (Status (normalized exec)) = Init \<and>
      ObservedGeneration (Status (execAfter (HandleAnnotationsAndGeneration c exec))) =
        Generation (execAfter (HandleAnnotationsAndGeneration c exec)) \<and>
      Phase (Status (execAfter (HandleAnnotationsAndGeneration c exec))) = Init \<and>
      (\<forall>e. writerUpdateExecutionStatus c ''W000033'' (normalized exec) = Some e \<longrightarrow>
         returned (HandleAnnotationsAndGeneration c exec) =
           Some (NewWrappedError e ''HandleAnnotationsAndGeneration''
                   ''update execution status'' (errorString e)) \<and>
         effects (HandleAnnotationsAndGeneration c exec) =
           [UpdateExecutionStatus ''W000033'' (normalized exec)]))
   \<and> (HasOperation exec ReconcileOperation \<and>
       writerUpdateExecutionStatus c ''W000033'' (normalized exec) = None \<longrightarrow>
         Annotations (execAfter (HandleAnnotationsAndGeneration c exec)) =
           (Annotations exec)(OperationAnnotation := None) \<and>
         effects (HandleAnnotationsAndGeneration c exec) =
           [UpdateExecutionStatus ''W000033'' (normalized exec),
            UpdateExecution ''W000027'' (execAfter (HandleAnnotationsAndGeneration c exec))])
   \<and> (\<not> HasOperation exec ReconcileOperation \<longrightarrow>
         Annotations (execAfter (HandleAnnotationsAndGeneration c exec)) = Annotations exec)
   \<and> (HasOperation exec ForceReconcileOperation \<longrightarrow>
         HasOperation (execAfter (HandleAnnotationsAndGeneration c exec)) ForceReconcileOperation \<and>
         (\<forall>fx \<in> set (effects (Ensure c exec)). isOpCall fx \<longrightarrow> opCallForce fx = Some True) \<and>
         (\<exists>rest. effects (removeForceReconcileAnnotation c exec) =
            PatchExecution ''W000029''
              (exec\<lparr>Annotations := (Annotations exec)(OperationAnnotation := None)\<rparr>) exec # rest))
   \<and> \<not> HasOperation (execAfter (removeForceReconcileAnnotation c exec)) ForceReconcileOperation"
proof (intro conjI impI allI)
  assume r: "reconcileRequired exec"
  show "\<exists>rest. effects (HandleAnnotationsAndGeneration c exec) =
         UpdateExecutionStatus ''W000033'' (normalized exec) # rest"
    using r by (rule HAG_required_status(1))
  show "ObservedGeneration (Status (normalized exec)) = Generation exec"
    and "Phase (Status (normalized exec)) = Init"
    by (simp_all add: normalized_def)
  show "ObservedGeneration (Status (execAfter (HandleAnnotationsAndGeneration c exec))) =
        Generation (execAfter (HandleAnnotationsAndGeneration c exec))"
    and "Phase (Status (execAfter (HandleAnnotationsAndGeneration c exec))) = Init"
    using HAG_required_status(2,3) [OF r, of c] by simp_all
  fix e assume w: "writerUpdateExecutionStatus c ''W000033'' (normalized exec) = Some e"
  show "returned (HandleAnnotationsAndGeneration c exec) =
           Some (NewWrappedError e ''HandleAnnotationsAndGeneration''
                   ''update execution status'' (errorString e))"
    and "effects (HandleAnnotationsAndGeneration c exec) =
           [UpdateExecutionStatus ''W000033'' (normalized exec)]"
    using HAG_status_write_fails [OF r w] by simp_all
next
  assume a: "HasOperation exec ReconcileOperation \<and>
       writerUpdateExecutionStatus c ''W000033'' (normalized exec) = None"
  show "Annotations (execAfter (HandleAnnotationsAndGeneration c exec)) =
           (Annotations exec)(OperationAnnotation := None)"
    using HAG_reconcile_annotation(1) [of exec c] a by (simp add: normalized_def)
  show "effects (HandleAnnotationsAndGeneration c exec) =
           [UpdateExecutionStatus ''W000033'' (normalized exec),
            UpdateExecution ''W000027'' (execAfter (HandleAnnotationsAndGeneration c exec))]"
    using HAG_reconcile_annotation(2) [of exec c] a by simp
next
  assume "\<not> HasOperation exec ReconcileOperation"
  then show "Annotations (execAfter (HandleAnnotationsAndGeneration c exec)) = Annotations exec"
    by (rule HAG_no_reconcile_annotation(1))
next
  assume f: "HasOperation exec ForceReconcileOperation"
  show "HasOperation (execAfter (HandleAnnotationsAndGeneration c exec)) ForceReconcileOperation"
    using f by (rule HAG_keeps_force)
  show "\<exists>rest. effects (removeForceReconcileAnnotation c exec) =
            PatchExecution ''W000029''
              (exec\<lparr>Annotations := (Annotations exec)(OperationAnnotation := None)\<rparr>) exec # rest"
    using f by (rule removeForce_patch)
  show "\<forall>fx \<in> set (effects (Ensure c exec)). isOpCall fx \<longrightarrow> opCallForce fx = Some True"
    using Ensure_force_flag [of c exec] f by simp
next
  show "\<not> HasOperation (execAfter (removeForceReconcileAnnotation c exec)) ForceReconcileOperation"
    by (rule removeForce_removes)
qed

text \<open>
  An execution of generation 2, observed at 1, with the force-reconcile annotation; and
  one with the reconcile annotation.
\<close>

theorem C4_annotations_and_generation_witness:
  "Phase (Status (execAfter (HandleAnnotationsAndGeneration quietEnv
      (mkExec 2 1 Completed (Some ForceReconcileOperation) None)))) = Init
   \<and> ObservedGeneration (Status (execAfter (HandleAnnotationsAndGeneration quietEnv
      (mkExec 2 1 Completed (Some ForceReconcileOperation) None)))) = 2
   \<and> HasOperation (execAfter (HandleAnnotationsAndGeneration quietEnv
      (mkExec 2 1 Completed (Some ForceReconcileOperation) None))) ForceReconcileOperation
   \<and> Annotations (execAfter (HandleAnnotationsAndGeneration quietEnv
      (mkExec 2 2 Completed (Some ReconcileOperation) None))) = Map.empty"
proof -
  have f: "HasOperation (mkExec 2 1 Completed (Some ForceReconcileOperation) None) ForceReconcileOperation"
    by (simp add: HasOperation_def mkExec_def)
  then have r: "reconcileRequired (mkExec 2 1 Completed (Some ForceReconcileOperation) None)"
    by (simp add: reconcileRequired_def)
  have g: "Generation (execAfter (HandleAnnotationsAndGeneration quietEnv
      (mkExec 2 1 Completed (Some ForceReconcileOperation) None))) = 2"
    using HAG_required_status(3) [OF r, of quietEnv] by (simp add: mkExec_def)
  have rc: "HasOperation (mkExec 2 2 Completed (Some ReconcileOperation) None) ReconcileOperation"
    "writerUpdateExecutionStatus quietEnv ''W000033''
       (normalized (mkExec 2 2 Completed (Some ReconcileOperation) None)) = None"
    by (simp_all add: HasOperation_def mkExec_def quietEnv_def)
  have m: "(Annotations (mkExec 2 2 Completed (Some ReconcileOperation) None))
             (OperationAnnotation := None) = Map.empty"
    by (simp add: mkExec_def)
  show ?thesis
    using C4_annotations_and_generation [of "mkExec 2 1 Completed (Some ForceReconcileOperation) None" quietEnv]
      C4_annotations_and_generation [of "mkExec 2 2 Completed (Some ReconcileOperation) None" quietEnv]
      f r g rc m
    by simp
qed

subsection \<open>The finalizer\<close>

lemma EnsureOperation_effects:
  "\<exists>calls. effects (EnsureOperation c exec fx0) = fx0 @ calls \<and> calls \<noteq> [] \<and>
       opCallExec (hd calls) = Some exec \<and> (\<forall>fx \<in> set calls. isOpCall fx)"
  by (auto simp: EnsureOperation_def Let_def isOpCall_def split: prod.splits option.splits)

lemma find_append_none:
  "\<forall>x \<in> set xs. \<not> P x \<Longrightarrow> find P (xs @ ys) = find P ys"
  by (induction xs) auto

lemma HasFinalizer_AddFinalizer: "HasFinalizer (AddFinalizer exec f) f"
  by (simp add: HasFinalizer_def AddFinalizer_def)

lemma Ensure_first_call_finalizer:
  assumes del: "DeletionTimestamp exec = None"
    and first: "find isOpCall (effects (Ensure c exec)) = Some call"
  shows "\<exists>e. opCallExec call = Some e \<and> HasFinalizer e LandscaperFinalizer"
proof -
  let ?h = "HandleAnnotationsAndGeneration c exec"
  have noop: "\<forall>fx \<in> set (effects ?h). \<not> isOpCall fx" by (rule HAG_frame(3))
  have del1: "DeletionTimestamp (execAfter ?h) = None" using del by (simp add: HAG_frame)
  have first_of: "\<And>e fx0. \<forall>fx \<in> set fx0. \<not> isOpCall fx \<Longrightarrow>
      find isOpCall (effects (EnsureOperation c e fx0)) = Some call \<Longrightarrow> opCallExec call = Some e"
  proof -
    fix e fx0 assume n: "\<forall>fx \<in> set fx0. \<not> isOpCall fx"
      and f: "find isOpCall (effects (EnsureOperation c e fx0)) = Some call"
    from EnsureOperation_effects [of c e fx0] obtain calls where
      calls: "effects (EnsureOperation c e fx0) = fx0 @ calls" "calls \<noteq> []"
        "opCallExec (hd calls) = Some e" "\<forall>fx \<in> set calls. isOpCall fx"
      by blast
    from calls(2,4) have "find isOpCall calls = Some (hd calls)" by (cases calls) auto
    with f calls(1) n have "call = hd calls" by (simp add: find_append_none)
    with calls(3) show "opCallExec call = Some e" by simp
  qed
  show ?thesis
  proof (cases "returned ?h")
    case (Some e)
    then have "effects (Ensure c exec) = effects ?h" by (simp add: Ensure_def Let_def)
    moreover have "find isOpCall (effects ?h) = None" using noop by (simp add: find_None_iff)
    ultimately show ?thesis using first by simp
  next
    case None
    show ?thesis
    proof (cases "HasFinalizer (execAfter ?h) LandscaperFinalizer")
      case True
      then have "Ensure c exec = EnsureOperation c (execAfter ?h) (effects ?h)"
        using None by (simp add: Ensure_def Let_def)
      with first first_of [OF noop] True show ?thesis by auto
    next
      case False
      let ?e2 = "AddFinalizer (execAfter ?h) LandscaperFinalizer"
      let ?fx = "effects ?h @ [UpdateExecution ''W000025'' ?e2]"
      have noop2: "\<forall>fx \<in> set ?fx. \<not> isOpCall fx" using noop by (auto simp: isOpCall_def)
      show ?thesis
      proof (cases "writerUpdateExecution c ''W000025'' ?e2")
        case None': None
        then have "Ensure c exec = EnsureOperation c ?e2 ?fx"
          using None False del1 by (simp add: Ensure_def Let_def)
        with first first_of [OF noop2] show ?thesis
          using HasFinalizer_AddFinalizer by auto
      next
        case (Some err)
        then have "effects (Ensure c exec) = ?fx"
          using None False del1 by (simp add: Ensure_def Let_def)
        moreover have "find isOpCall ?fx = None" using noop2 by (simp only: find_None_iff) blast
        ultimately show ?thesis using first by simp
      qed
    qed
  qed
qed

lemma Ensure_adds_finalizer:
  assumes del: "DeletionTimestamp exec = None"
    and ok: "returned (HandleAnnotationsAndGeneration c exec) = None"
    and nf: "\<not> HasFinalizer exec LandscaperFinalizer"
  shows "\<exists>rest. effects (Ensure c exec) =
           effects (HandleAnnotationsAndGeneration c exec) @
           UpdateExecution ''W000025''
             (AddFinalizer (execAfter (HandleAnnotationsAndGeneration c exec)) LandscaperFinalizer) # rest"
    and "writerUpdateExecution c ''W000025''
           (AddFinalizer (execAfter (HandleAnnotationsAndGeneration c exec)) LandscaperFinalizer) = Some err
         \<Longrightarrow> returned (Ensure c exec) = Some (NewError ''Reconcile'' ''AddFinalizer'' (errorString err)) \<and>
             (\<forall>fx \<in> set (effects (Ensure c exec)). \<not> isOpCall fx)"
proof -
  let ?h = "HandleAnnotationsAndGeneration c exec"
  let ?e2 = "AddFinalizer (execAfter ?h) LandscaperFinalizer"
  let ?fx = "effects ?h @ [UpdateExecution ''W000025'' ?e2]"
  have c1: "DeletionTimestamp (execAfter ?h) = None \<and> \<not> HasFinalizer (execAfter ?h) LandscaperFinalizer"
    using del nf by (simp add: HAG_frame HasFinalizer_def)
  have noop2: "\<forall>fx \<in> set ?fx. \<not> isOpCall fx" using HAG_frame(3) [of c exec] by (auto simp: isOpCall_def)
  show "\<exists>rest. effects (Ensure c exec) = effects ?h @ UpdateExecution ''W000025'' ?e2 # rest"
  proof (cases "writerUpdateExecution c ''W000025'' ?e2")
    case None
    then have "Ensure c exec = EnsureOperation c ?e2 ?fx"
      using ok c1 by (simp add: Ensure_def Let_def)
    then show ?thesis using EnsureOperation_effects [of c ?e2 ?fx] by auto
  next
    case (Some e)
    then have "effects (Ensure c exec) = ?fx" using ok c1 by (simp add: Ensure_def Let_def)
    then show ?thesis by simp
  qed
  assume w: "writerUpdateExecution c ''W000025'' ?e2 = Some err"
  then have "Ensure c exec = \<lparr>returned = Some (NewError ''Reconcile'' ''AddFinalizer'' (errorString err)),
      execAfter = ?e2, effects = ?fx\<rparr>"
    using ok c1 by (simp add: Ensure_def Let_def)
  then show "returned (Ensure c exec) = Some (NewError ''Reconcile'' ''AddFinalizer'' (errorString err)) \<and>
             (\<forall>fx \<in> set (effects (Ensure c exec)). \<not> isOpCall fx)"
    using noop2 by simp
qed

text \<open>
  Claim C9. For an execution without deletion timestamp, the first call of the
  execution-layer operation in \<^verbatim>\<open>Ensure\<close> (delete, deploy item check or reconcile) is
  handed an execution that carries the Landscaper finalizer. If the finalizer is missing
  (and annotations and generation were handled without error) it is added and the
  execution is updated before any such call; when that update fails, \<^verbatim>\<open>Ensure\<close> returns
  the error and calls no operation.
\<close>

theorem C9_finalizer_before_work:
  "DeletionTimestamp exec = None \<longrightarrow>
     (\<forall>call. find isOpCall (effects (Ensure c exec)) = Some call \<longrightarrow>
        (\<exists>e. opCallExec call = Some e \<and> HasFinalizer e LandscaperFinalizer))
     \<and> (returned (HandleAnnotationsAndGeneration c exec) = None \<and>
        \<not> HasFinalizer exec LandscaperFinalizer \<longrightarrow>
          (\<exists>rest. effects (Ensure c exec) =
             effects (HandleAnnotationsAndGeneration c exec) @
             UpdateExecution ''W000025''
               (AddFinalizer (execAfter (HandleAnnotationsAndGeneration c exec)) LandscaperFinalizer) # rest)
          \<and> (\<forall>err. writerUpdateExecution c ''W000025''
                 (AddFinalizer (execAfter (HandleAnnotationsAndGeneration c exec)) LandscaperFinalizer) = Some err
               \<longrightarrow> returned (Ensure c exec) =
                     Some (NewError ''Reconcile'' ''AddFinalizer'' (errorString err)) \<and>
                   (\<forall>fx \<in> set (effects (Ensure c exec)). \<not> isOpCall fx)))"
  using Ensure_first_call_finalizer [of exec c] Ensure_adds_finalizer [of exec c]
  by blast

text \<open>
  An execution without finalizer: the update with the finalizer comes first, the
  reconcile is handed the execution with it.
\<close>

theorem C9_finalizer_before_work_witness:
  "find isOpCall (effects (Ensure quietEnv ((mkExec 1 1 Init None None)\<lparr>Finalizers := []\<rparr>))) =
     Some (OpReconcile False (mkExec 1 1 Init None None))
   \<and> HasFinalizer (mkExec 1 1 Init None None) LandscaperFinalizer
   \<and> effects (Ensure quietEnv ((mkExec 1 1 Init None None)\<lparr>Finalizers := []\<rparr>)) =
       [UpdateExecution ''W000025'' (mkExec 1 1 Init None None),
        OpReconcile False (mkExec 1 1 Init None None)]"
proof -
  have fx: "effects (Ensure quietEnv ((mkExec 1 1 Init None None)\<lparr>Finalizers := []\<rparr>)) =
       [UpdateExecution ''W000025'' (mkExec 1 1 Init None None),
        OpReconcile False (mkExec 1 1 Init None None)]"
    by (simp add: controller_defs quietEnv_def mkExec_def)
  then have "find isOpCall (effects (Ensure quietEnv ((mkExec 1 1 Init None None)\<lparr>Finalizers := []\<rparr>))) =
     Some (OpReconcile False (mkExec 1 1 Init None None))"
    by (simp add: isOpCall_def)
  moreover have "DeletionTimestamp ((mkExec 1 1 Init None None)\<lparr>Finalizers := []\<rparr>) = None"
    by (simp add: mkExec_def)
  ultimately show ?thesis
    using C9_finalizer_before_work [of "(mkExec 1 1 Init None None)\<lparr>Finalizers := []\<rparr>" quietEnv] fx
    by auto
qed

subsection \<open>The end of an invocation\<close>

lemma handleError_delete_ok:
  "handleError c None oldExec exec True = \<lparr>returned = None, execAfter = exec, effects = []\<rparr>"
  by (simp add: handleError_def)

lemma handleError_execAfter:
  "\<not> (isDelete \<and> err = None) \<Longrightarrow>
   execAfter (handleError c err oldExec exec isDelete) = statusAfterError c err exec"
  by (auto simp: handleError_def statusAfterError_def Let_def split: option.splits)

lemma handleError_effects:
  "\<not> (isDelete \<and> err = None) \<Longrightarrow>
   effects (handleError c err oldExec exec isDelete) =
     (case LastError (Status (statusAfterError c err exec)) of
        None \<Rightarrow> []
      | Some lastErr \<Rightarrow>
          [Event (statusAfterError c err exec) ''Warning'' (errReason lastErr) (errMessage lastErr)]) @
     (if Status oldExec \<noteq> Status (statusAfterError c err exec)
      then [UpdateExecutionStatus ''W000031'' (statusAfterError c err exec)] else [])"
  by (auto simp: handleError_def statusAfterError_def Let_def split: option.splits)

lemma handleError_returned:
  "\<not> (isDelete \<and> err = None) \<Longrightarrow>
   returned (handleError c err oldExec exec isDelete) =
     (if Status oldExec \<noteq> Status (statusAfterError c err exec) then
        (case writerUpdateExecutionStatus c ''W000031'' (statusAfterError c err exec) of
           Some updateErr \<Rightarrow> Some (OfApiError updateErr)
         | None \<Rightarrow> map_option OfLsError err)
      else map_option OfLsError err)"
  by (auto simp: handleError_def statusAfterError_def Let_def split: option.splits)

lemma statusAfterError_LastError:
  "LastError (Status (statusAfterError c err exec)) =
     (case err of None \<Rightarrow> LastError (Status exec)
      | Some e \<Rightarrow> Some (TryUpdateLsError (now c) (LastError (Status exec)) e))"
  by (simp add: statusAfterError_def Let_def split: option.splits)

lemma statusAfterError_Phase:
  "Phase (Status (statusAfterError c err exec)) =
     GetPhaseForLastError (Phase (Status exec)) (LastError (Status (statusAfterError c err exec))) 300"
  by (simp add: statusAfterError_def Let_def split: option.splits)

lemma statusAfterError_idle:
  "LastError (Status exec) = None \<Longrightarrow> statusAfterError c None exec = exec"
  by (simp add: statusAfterError_def GetPhaseForLastError_def)

text \<open>
  Claim C10. With a primary error \<open>e\<close>: if the status differs from the one at the start
  and its write fails, \<^verbatim>\<open>handleError\<close> returns the write error; the primary error is then
  only in the merged \<^verbatim>\<open>Status.LastError\<close> and in the warning event recorded for it. The
  primary error is what is returned exactly when the status is unchanged (no write) or
  the write succeeds. The only write is that of the status.
\<close>

theorem C10_write_error_replaces_primary:
  "(Status oldExec \<noteq> Status (execAfter (handleError c (Some e) oldExec exec isDelete)) \<and>
    writerUpdateExecutionStatus c ''W000031''
      (execAfter (handleError c (Some e) oldExec exec isDelete)) = Some updateErr \<longrightarrow>
      returned (handleError c (Some e) oldExec exec isDelete) = Some (OfApiError updateErr))
   \<and> LastError (Status (execAfter (handleError c (Some e) oldExec exec isDelete))) =
       Some (TryUpdateLsError (now c) (LastError (Status exec)) e)
   \<and> (\<exists>rest. effects (handleError c (Some e) oldExec exec isDelete) =
        Event (execAfter (handleError c (Some e) oldExec exec isDelete)) ''Warning''
          (errReason (TryUpdateLsError (now c) (LastError (Status exec)) e))
          (errMessage (TryUpdateLsError (now c) (LastError (Status exec)) e)) # rest)
   \<and> (returned (handleError c (Some e) oldExec exec isDelete) = Some (OfLsError e) \<longleftrightarrow>
        Status oldExec = Status (execAfter (handleError c (Some e) oldExec exec isDelete)) \<or>
        writerUpdateExecutionStatus c ''W000031''
          (execAfter (handleError c (Some e) oldExec exec isDelete)) = None)
   \<and> (\<forall>fx \<in> set (effects (handleError c (Some e) oldExec exec isDelete)). isWrite fx \<longrightarrow>
        fx = UpdateExecutionStatus ''W000031'' (execAfter (handleError c (Some e) oldExec exec isDelete)))"
proof -
  have nd: "\<not> (isDelete \<and> Some e = None)" by simp
  show ?thesis
    unfolding handleError_execAfter [OF nd] handleError_effects [OF nd] handleError_returned [OF nd]
    by (auto simp: statusAfterError_LastError split: option.splits)
qed

text \<open>
  The same failed reconcile, once with a conflict on the status write, once without.
\<close>

theorem C10_write_error_replaces_primary_witness:
  "returned (handleError conflictEnv (Some (NewError ''Reconcile'' ''Apply'' ''boom''))
      (mkExec 1 1 Progressing None None) (mkExec 1 1 Progressing None None) False) =
     Some (OfApiError (ApiError True ''conflict''))
   \<and> returned (handleError quietEnv (Some (NewError ''Reconcile'' ''Apply'' ''boom''))
      (mkExec 1 1 Progressing None None) (mkExec 1 1 Progressing None None) False) =
     Some (OfLsError (NewError ''Reconcile'' ''Apply'' ''boom''))"
proof -
  have d: "Status (mkExec 1 1 Progressing None None) \<noteq>
      Status (execAfter (handleError c (Some (NewError ''Reconcile'' ''Apply'' ''boom''))
        (mkExec 1 1 Progressing None None) (mkExec 1 1 Progressing None None) False))" for c
    by (simp add: handleError_execAfter statusAfterError_def mkExec_def Let_def)
  have w: "writerUpdateExecutionStatus conflictEnv ''W000031'' x = Some (ApiError True ''conflict'')"
    "writerUpdateExecutionStatus quietEnv ''W000031'' x = None" for x
    by (simp_all add: conflictEnv_def quietEnv_def)
  show ?thesis
    using C10_write_error_replaces_primary [of "mkExec 1 1 Progressing None None" conflictEnv
        "NewError ''Reconcile'' ''Apply'' ''boom''" "mkExec 1 1 Progressing None None" False
        "ApiError True ''conflict''"]
      C10_write_error_replaces_primary [of "mkExec 1 1 Progressing None None" quietEnv
        "NewError ''Reconcile'' ''Apply'' ''boom''" "mkExec 1 1 Progressing None None" False]
      d w
    by simp
qed

lemma GetPhaseForLastError_cases:
  "GetPhaseForLastError p None d = p"
  "persisted l > d \<Longrightarrow> GetPhaseForLastError p (Some l) d = Failed"
  "persisted l \<le> d \<Longrightarrow> GetPhaseForLastError p (Some l) d = p"
  by (simp_all add: GetPhaseForLastError_def persisted_def)

lemma persisted_merged:
  "persisted (TryUpdateLsError t None e) = 0"
  "errOperation l = lsOperation e \<Longrightarrow> errReason l = lsReason e \<Longrightarrow>
     persisted (TryUpdateLsError t (Some l) e) = t - errLastTransitionTime l"
  "\<not> (errOperation l = lsOperation e \<and> errReason l = lsReason e) \<Longrightarrow>
     persisted (TryUpdateLsError t (Some l) e) = 0"
  by (auto simp: TryUpdateLsError_def persisted_def)

text \<open>
  Claim C5. With no error and none recorded the phase stands. An error is merged into
  \<^verbatim>\<open>Status.LastError\<close>. The phase becomes \<^verbatim>\<open>Failed\<close> when the merged error has persisted
  past 300 seconds and stands when it has persisted for less; a phase that changes has
  become \<^verbatim>\<open>Failed\<close>, the error having persisted for the threshold at least. A first
  error leaves the phase; the same error recorded before leaves it within 300 seconds of
  its first recording and fails the execution after.
\<close>

theorem C5_error_policy:
  "(LastError (Status exec) = None \<longrightarrow>
      Phase (Status (execAfter (handleError c None oldExec exec isDelete))) = Phase (Status exec) \<and>
      LastError (Status (execAfter (handleError c None oldExec exec isDelete))) = None)
   \<and> LastError (Status (execAfter (handleError c (Some e) oldExec exec isDelete))) =
       Some (TryUpdateLsError (now c) (LastError (Status exec)) e)
   \<and> (persisted (TryUpdateLsError (now c) (LastError (Status exec)) e) > 300 \<longrightarrow>
       Phase (Status (execAfter (handleError c (Some e) oldExec exec isDelete))) = Failed)
   \<and> (persisted (TryUpdateLsError (now c) (LastError (Status exec)) e) < 300 \<longrightarrow>
       Phase (Status (execAfter (handleError c (Some e) oldExec exec isDelete))) = Phase (Status exec))
   \<and> (Phase (Status (execAfter (handleError c (Some e) oldExec exec isDelete))) \<noteq> Phase (Status exec) \<longrightarrow>
       Phase (Status (execAfter (handleError c (Some e) oldExec exec isDelete))) = Failed \<and>
       persisted (TryUpdateLsError (now c) (LastError (Status exec)) e) \<ge> 300)
   \<and> (LastError (Status exec) = None \<longrightarrow>
       Phase (Status (execAfter (handleError c (Some e) oldExec exec isDelete))) = Phase (Status exec))
   \<and> (LastError (Status exec) = Some l \<and> errOperation l = lsOperation e \<and> errReason l = lsReason e \<longrightarrow>
       (now c - errLastTransitionTime l < 300 \<longrightarrow>
          Phase (Status (execAfter (handleError c (Some e) oldExec exec isDelete))) = Phase (Status exec)) \<and>
       (now c - errLastTransitionTime l > 300 \<longrightarrow>
          Phase (Status (execAfter (handleError c (Some e) oldExec exec isDelete))) = Failed))"
proof -
  have nd: "\<not> (isDelete \<and> Some e = None)" by simp
  have ph: "Phase (Status (execAfter (handleError c (Some e) oldExec exec isDelete))) =
      GetPhaseForLastError (Phase (Status exec))
        (Some (TryUpdateLsError (now c) (LastError (Status exec)) e)) 300"
    unfolding handleError_execAfter [OF nd]
    by (subst statusAfterError_Phase) (simp add: statusAfterError_LastError)
  have le: "LastError (Status (execAfter (handleError c (Some e) oldExec exec isDelete))) =
       Some (TryUpdateLsError (now c) (LastError (Status exec)) e)"
    unfolding handleError_execAfter [OF nd] by (simp add: statusAfterError_LastError)
  have none: "LastError (Status exec) = None \<longrightarrow>
      Phase (Status (execAfter (handleError c None oldExec exec isDelete))) = Phase (Status exec) \<and>
      LastError (Status (execAfter (handleError c None oldExec exec isDelete))) = None"
    by (cases isDelete) (simp_all add: handleError_delete_ok handleError_execAfter statusAfterError_idle)
  have big: "persisted (TryUpdateLsError (now c) (LastError (Status exec)) e) > 300 \<longrightarrow>
       Phase (Status (execAfter (handleError c (Some e) oldExec exec isDelete))) = Failed"
    unfolding ph by (simp add: GetPhaseForLastError_cases)
  have small: "persisted (TryUpdateLsError (now c) (LastError (Status exec)) e) \<le> 300 \<longrightarrow>
       Phase (Status (execAfter (handleError c (Some e) oldExec exec isDelete))) = Phase (Status exec)"
    unfolding ph by (simp add: GetPhaseForLastError_cases)
  have new: "LastError (Status exec) = None \<longrightarrow>
       Phase (Status (execAfter (handleError c (Some e) oldExec exec isDelete))) = Phase (Status exec)"
    using small by (simp add: persisted_merged)
  have same: "LastError (Status exec) = Some l \<and> errOperation l = lsOperation e \<and> errReason l = lsReason e \<longrightarrow>
       (now c - errLastTransitionTime l < 300 \<longrightarrow>
          Phase (Status (execAfter (handleError c (Some e) oldExec exec isDelete))) = Phase (Status exec)) \<and>
       (now c - errLastTransitionTime l > 300 \<longrightarrow>
          Phase (Status (execAfter (handleError c (Some e) oldExec exec isDelete))) = Failed)"
    using small big by (auto simp: persisted_merged)
  from none le big small new same show ?thesis
    by (intro conjI) (simp_all, linarith)
qed

text \<open>
  At time 1000: an error first recorded at 900, one first recorded at 100, and no error.
\<close>

theorem C5_error_policy_witness:
  "Phase (Status (execAfter (handleError quietEnv (Some (NewError ''Reconcile'' ''Apply'' ''boom''))
      (mkExec 1 1 Progressing None (Some (recordedError 900)))
      (mkExec 1 1 Progressing None (Some (recordedError 900))) False))) = Progressing
   \<and> Phase (Status (execAfter (handleError quietEnv (Some (NewError ''Reconcile'' ''Apply'' ''boom''))
      (mkExec 1 1 Progressing None (Some (recordedError 100)))
      (mkExec 1 1 Progressing None (Some (recordedError 100))) False))) = Failed
   \<and> Phase (Status (execAfter (handleError quietEnv None
      (mkExec 1 1 Completed None None) (mkExec 1 1 Completed None None) False))) = Completed"
proof -
  have f: "LastError (Status (mkExec 1 1 Progressing None (Some (recordedError t)))) = Some (recordedError t)"
    "Phase (Status (mkExec 1 1 p None x)) = p"
    "LastError (Status (mkExec 1 1 Completed None None)) = None"
    "errOperation (recordedError t) = lsOperation (NewError ''Reconcile'' ''Apply'' ''boom'')"
    "errReason (recordedError t) = lsReason (NewError ''Reconcile'' ''Apply'' ''boom'')"
    "errLastTransitionTime (recordedError t) = t"
    "now quietEnv = 1000" for t p x
    by (simp_all add: mkExec_def recordedError_def NewError_def quietEnv_def)
  show ?thesis
    using C5_error_policy [of "mkExec 1 1 Progressing None (Some (recordedError 900))" quietEnv
        "mkExec 1 1 Progressing None (Some (recordedError 900))" False
        "NewError ''Reconcile'' ''Apply'' ''boom''" "recordedError 900"]
      C5_error_policy [of "mkExec 1 1 Progressing None (Some (recordedError 100))" quietEnv
        "mkExec 1 1 Progressing None (Some (recordedError 100))" False
        "NewError ''Reconcile'' ''Apply'' ''boom''" "recordedError 100"]
      C5_error_policy [of "mkExec 1 1 Completed None None" quietEnv
        "mkExec 1 1 Completed None None" False]
    by (simp add: f)
qed

subsection \<open>Invoking again\<close>








section \<open>Properties of the export constructor\<close>




text \<open>
  The model meets what the three tests of the constructor expect.
\<close>

lemma tests_expectation_met:
  "expectedFromExecution t (Construct t scenarioExecution)"
  "expectedFromSiblings t (Construct t scenarioSiblings)"
  "expectedFromSiblingAndExecution t (Construct t (scenario ''a'' ''val-a''))"
  by (simp_all add: expectedFromExecution_def expectedFromSiblings_def
      expectedFromSiblingAndExecution_def matchesElement_def Construct_def scenarioExecution_def
      scenarioSiblings_def scenario_def mkSibling_def exportedBy_def IsCompletedInstallationPhase_def)



end
